theory Spec2Isabelle
  imports Main "HOL-Library.Sublist" "HOL-Library.AList"
begin

section \<open>Errors\<close>

text \<open>
  Every rejection and every \<^verbatim>\<open>throw\<close> of the client is a value of this type.
  \<^verbatim>\<open>request\<close> wraps whatever went wrong into
  \<^verbatim>\<open>new APIError(error.message, responseStatus, 'GitHub')\<close>; \<open>APIError code msg\<close>
  is that object. \<open>Error msg\<close> is a plain \<^verbatim>\<open>Error\<close> thrown by the client itself,
  \<open>Rejection msg\<close> a promise rejected with a bare string, and \<open>TypeError\<close> is what the
  JavaScript runtime throws when a property of \<^verbatim>\<open>undefined\<close> is read.

  \<open>NotModelled\<close> is no error of the client. It marks the few places where the source goes on
  with an object of the JavaScript runtime, so that what happens depends on properties the
  model does not hold. The operation ends there with this value, which no handler turns
  into a success; nothing is proved about what the client does from there.
\<close>

datatype error =
    APIError nat string
  | Error string
  | Rejection string
  | TypeError
  | NotModelled

fun error_message :: "error \<Rightarrow> string option" where
  "error_message (APIError code msg) = Some msg"
| "error_message (Error msg) = Some msg"
| "error_message (Rejection msg) = None"
| "error_message TypeError = Some ''Cannot read property of undefined''"
| "error_message NotModelled = None"

section \<open>JavaScript strings and arrays\<close>

text \<open>\<^verbatim>\<open>str.split(sep)\<close> for a one-character separator: the empty string gives one empty piece.\<close>

fun js_split :: "char \<Rightarrow> string \<Rightarrow> string list" where
  "js_split c [] = [[]]"
| "js_split c (x # xs) =
     (if x = c then [] # js_split c xs
      else (case js_split c xs of
              [] \<Rightarrow> [[x]]
            | w # ws \<Rightarrow> (x # w) # ws))"

text \<open>\<^verbatim>\<open>arr[i]\<close>: reading past the end gives \<^verbatim>\<open>undefined\<close>, here \<open>None\<close>.\<close>

definition js_nth :: "'a list \<Rightarrow> nat \<Rightarrow> 'a option" where
  "js_nth xs i = (if i < length xs then Some (xs ! i) else None)"

text \<open>lodash \<^verbatim>\<open>last(arr)\<close>: \<^verbatim>\<open>undefined\<close> on the empty array.\<close>

definition js_last :: "'a list \<Rightarrow> 'a option" where
  "js_last xs = (if xs = [] then None else Some (last xs))"

text \<open>\<^verbatim>\<open>arr.join(sep)\<close>.\<close>

fun js_join :: "string \<Rightarrow> string list \<Rightarrow> string" where
  "js_join sep [] = []"
| "js_join sep [x] = x"
| "js_join sep (x # y # ys) = x @ sep @ js_join sep (y # ys)"

section \<open>The client configuration\<close>

text \<open>The fields the constructor of \<^verbatim>\<open>API\<close> stores on \<^verbatim>\<open>this\<close>.\<close>

record api =
  repo :: string
  originRepo :: string
  branch :: string
  useOpenAuthoring :: bool
  merge_method :: string
  initialWorkflowStatus :: string

definition CMS_BRANCH_PREFIX :: string where
  "CMS_BRANCH_PREFIX = ''cms''"

section \<open>Key and branch scheme\<close>

definition generateContentKey :: "api \<Rightarrow> string \<Rightarrow> string \<Rightarrow> string" where
  "generateContentKey this collectionName slug =
     (if \<not> useOpenAuthoring this then slug
      else repo this @ ''/'' @ collectionName @ ''/'' @ slug)"

definition generateBranchName :: "string \<Rightarrow> string" where
  "generateBranchName contentKey = CMS_BRANCH_PREFIX @ ''/'' @ contentKey"

definition branchNameFromRef :: "string \<Rightarrow> string" where
  "branchNameFromRef ref = drop (length ''refs/heads/'') ref"

definition contentKeyFromRef :: "string \<Rightarrow> string" where
  "contentKeyFromRef ref = drop (length (''refs/heads/'' @ CMS_BRANCH_PREFIX @ ''/'')) ref"

text \<open>
  \<^verbatim>\<open>createRef(type, name, sha)\<close> posts the ref name \<^verbatim>\<open>`refs/${type}/${name}`\<close>; this is the
  name under which the remote lists the branch again.
\<close>

definition refName :: "string \<Rightarrow> string \<Rightarrow> string" where
  "refName type name = ''refs/'' @ type @ ''/'' @ name"

text \<open>
  The three places that take a content key apart again.
  \<^verbatim>\<open>getUpdatedOpenAuthoringMetadata\<close> reads
  \<^verbatim>\<open>const [, collectionName, slug] = contentKey.split('/')\<close>;
  \<^verbatim>\<open>retrieveMetadata\<close> reads \<^verbatim>\<open>const [user, repo] = key.split('/')\<close>;
  \<^verbatim>\<open>readUnpublishedBranchFile\<close> reads
  \<^verbatim>\<open>contentKey.split('/').slice(0, 2).join('/')\<close>.
  A destructured position past the end of the array is \<^verbatim>\<open>undefined\<close>.
\<close>

definition getUpdatedOpenAuthoringMetadata_split :: "string \<Rightarrow> string option \<times> string option" where
  "getUpdatedOpenAuthoringMetadata_split contentKey =
     (let parts = js_split CHR ''/'' contentKey in (js_nth parts 1, js_nth parts 2))"

definition retrieveMetadata_split :: "string \<Rightarrow> string option \<times> string option" where
  "retrieveMetadata_split key =
     (let parts = js_split CHR ''/'' key in (js_nth parts 0, js_nth parts 1))"

definition readUnpublishedBranchFile_repo :: "string \<Rightarrow> string" where
  "readUnpublishedBranchFile_repo contentKey =
     js_join ''/'' (take 2 (js_split CHR ''/'' contentKey))"

section \<open>Git objects\<close>

text \<open>
  The remote store is content-addressed: a SHA names one immutable object, and reading a
  SHA gives back what was written under it. The model therefore lets a SHA be the object it
  names. \<open>Blob b\<close> is the SHA of blob number \<open>b\<close> (blob contents are kept in the remote
  state), \<open>Tree es\<close> is the SHA of the tree whose listing is \<open>es\<close>, and \<open>Commit n t\<close> is the
  SHA of commit number \<open>n\<close>, whose root tree has SHA \<open>t\<close>. A tree entry is the
  \<^verbatim>\<open>{path, mode, type, sha}\<close> object of a tree listing.
\<close>

datatype gitobj =
    Blob nat
  | Tree "tree_entry list"
  | Commit nat gitobj
and tree_entry =
    Entry (entry_path: string) (entry_mode: string) (entry_type: string) (entry_sha: gitobj)

text \<open>
  \<^verbatim>\<open>getTree(sha)\<close>: a falsy SHA is "no tree yet" and gives \<^verbatim>\<open>{ tree: [] }\<close> without a
  request. Otherwise the remote is asked for \<^verbatim>\<open>/git/trees/${sha}\<close>; it resolves a commit
  SHA to the commit's root tree and answers 404 for anything that is not a tree. The result
  is the \<^verbatim>\<open>tree\<close> array of the response.
\<close>

fun getTree :: "gitobj option \<Rightarrow> error + tree_entry list" where
  "getTree None = Inr []"
| "getTree (Some (Tree es)) = Inr es"
| "getTree (Some (Commit n (Tree es))) = Inr es"
| "getTree (Some (Commit n (Blob b))) = Inl (APIError 404 ''Not Found'')"
| "getTree (Some (Commit n (Commit m t))) = Inl (APIError 404 ''Not Found'')"
| "getTree (Some (Blob b)) = Inl (APIError 404 ''Not Found'')"

subsection \<open>Tree creation on the remote\<close>

text \<open>
  An element of the \<^verbatim>\<open>tree\<close> array posted to \<^verbatim>\<open>/git/trees\<close>. \<open>Update path mode type sha\<close>
  carries the four properties, with \<open>None\<close> for \<^verbatim>\<open>sha: null\<close>; \<open>PathOnly path\<close> is the object
  \<^verbatim>\<open>{ ...undefined, path }\<close> that \<^verbatim>\<open>rebaseSingleBlobCommit\<close> builds when the blob was not
  found; \<open>NoSha path mode type\<close> is an object whose \<^verbatim>\<open>sha\<close> is \<^verbatim>\<open>undefined\<close> (and left out of
  the JSON) or not a string.
\<close>

datatype tree_update =
    Update string string string "gitobj option"
  | PathOnly string
  | NoSha string string string

text \<open>
  What the remote does with a posted tree (the client relies on it: "Use the full path to
  indicate nesting, GitHub will take care of subtree creation", and \<^verbatim>\<open>sha: null\<close> deletes).
  Each update is applied to the listing of the base tree: its path is split at \<^verbatim>\<open>/\<close>, the
  directories on the way are entered (created when missing), and the last name is set,
  replaced or, for a null SHA, deleted. A path with an empty segment and an entry without
  a SHA are rejected with 422.
\<close>

definition replace_entry :: "tree_entry \<Rightarrow> tree_entry list \<Rightarrow> tree_entry list" where
  "replace_entry new es =
     (if \<exists>e \<in> set es. entry_path e = entry_path new
      then map (\<lambda>e. if entry_path e = entry_path new then new else e) es
      else es @ [new])"

definition subtree_of :: "string \<Rightarrow> tree_entry list \<Rightarrow> tree_entry list" where
  "subtree_of name es =
     (case find (\<lambda>e. entry_path e = name) es of
        None \<Rightarrow> []
      | Some e \<Rightarrow> (case getTree (Some (entry_sha e)) of Inl err \<Rightarrow> [] | Inr sub \<Rightarrow> sub))"

fun put_entry ::
  "string list \<Rightarrow> (string \<times> string \<times> gitobj) option \<Rightarrow> tree_entry list \<Rightarrow> tree_entry list" where
  "put_entry [] v es = es"
| "put_entry [name] v es =
     (case v of
        None \<Rightarrow> filter (\<lambda>e. entry_path e \<noteq> name) es
      | Some (m, t, s) \<Rightarrow> replace_entry (Entry name m t s) es)"
| "put_entry (name # next # rest) v es =
     replace_entry
       (Entry name ''040000'' ''tree'' (Tree (put_entry (next # rest) v (subtree_of name es)))) es"

fun apply_update :: "tree_update \<Rightarrow> tree_entry list \<Rightarrow> error + tree_entry list" where
  "apply_update (PathOnly p) es = Inl (APIError 422 ''Invalid tree info'')"
| "apply_update (NoSha p m t) es = Inl (APIError 422 ''Invalid tree info'')"
| "apply_update (Update p m t s) es =
     (let segments = js_split CHR ''/'' p
      in if [] \<in> set segments then Inl (APIError 422 ''Invalid tree info'')
         else Inr (put_entry segments (map_option (\<lambda>s. (m, t, s)) s) es))"

fun apply_updates :: "tree_update list \<Rightarrow> tree_entry list \<Rightarrow> error + tree_entry list" where
  "apply_updates [] es = Inr es"
| "apply_updates (u # us) es =
     (case apply_update u es of Inl e \<Rightarrow> Inl e | Inr es' \<Rightarrow> apply_updates us es')"

text \<open>
  \<^verbatim>\<open>createTree(baseSha, tree)\<close> posts \<^verbatim>\<open>{ base_tree: baseSha, tree }\<close>; the value is the
  \<^verbatim>\<open>sha\<close> of the response, the only property its callers read.
\<close>

definition createTree :: "gitobj option \<Rightarrow> tree_update list \<Rightarrow> error + gitobj" where
  "createTree baseSha tree =
     (case getTree baseSha of
        Inl e \<Rightarrow> Inl e
      | Inr es \<Rightarrow> (case apply_updates tree es of Inl e \<Rightarrow> Inl e | Inr es' \<Rightarrow> Inr (Tree es')))"

text \<open>
  The tree that results from grafting the entry \<open>e\<close> at the path \<open>P\<close> into the listing \<open>es\<close>:
  what \<open>createTree\<close> answers for the single update \<^verbatim>\<open>{ ...e, path: P }\<close>.
\<close>

definition replay_tree :: "tree_entry list \<Rightarrow> string \<Rightarrow> tree_entry \<Rightarrow> gitobj" where
  "replay_tree es P e =
     Tree (put_entry (js_split CHR ''/'' P) (Some (entry_mode e, entry_type e, entry_sha e)) es)"

subsection \<open>Paths of a tree\<close>

text \<open>
  The entry a tree holds at a path, given as the list of its segments: the entry named by
  the last segment in the tree reached through the directories before it.
\<close>

fun lookup_path :: "tree_entry list \<Rightarrow> string list \<Rightarrow> tree_entry option" where
  "lookup_path es [] = None"
| "lookup_path es [name] = find (\<lambda>e. entry_path e = name) es"
| "lookup_path es (name # rest) =
     (case find (\<lambda>e. entry_path e = name) es of
        None \<Rightarrow> None
      | Some e \<Rightarrow>
          (case getTree (Some (entry_sha e)) of
             Inl err \<Rightarrow> None
           | Inr sub \<Rightarrow> lookup_path sub rest))"

definition tree_at :: "gitobj \<Rightarrow> string list \<Rightarrow> tree_entry option" where
  "tree_at t segments =
     (case getTree (Some t) of Inl err \<Rightarrow> None | Inr es \<Rightarrow> lookup_path es segments)"

text \<open>
  A path lies outside another when neither leads to the other: it is not the path, not
  one of the directories above it, and not below it.
\<close>

definition outside :: "string list \<Rightarrow> string list \<Rightarrow> bool" where
  "outside q p \<longleftrightarrow> \<not> prefix q p \<and> \<not> prefix p q"

subsection \<open>Reading a blob out of a tree\<close>

text \<open>
  The \<^verbatim>\<open>reduce\<close> of \<^verbatim>\<open>getBlobInTree\<close> over the directory segments:
  \<^verbatim>\<open>find(tree.tree, { path: segment }).sha\<close> throws when no entry has that name, and the
  request for the subtree fails when the entry is not a tree.
\<close>

fun getBlobInTree_walk :: "tree_entry list \<Rightarrow> string list \<Rightarrow> error + tree_entry list" where
  "getBlobInTree_walk tree [] = Inr tree"
| "getBlobInTree_walk tree (segment # directories) =
     (case find (\<lambda>e. entry_path e = segment) tree of
        None \<Rightarrow> Inl TypeError
      | Some e \<Rightarrow>
          (case getTree (Some (entry_sha e)) of
             Inl err \<Rightarrow> Inl err
           | Inr subTree \<Rightarrow> getBlobInTree_walk subTree directories))"

definition pathSegments :: "string \<Rightarrow> string list" where
  "pathSegments p = filter (\<lambda>val. val \<noteq> []) (js_split CHR ''/'' p)"

definition getBlobInTree :: "gitobj \<Rightarrow> string \<Rightarrow> error + tree_entry option" where
  "getBlobInTree treeSha pathToBlob =
     (let segments = pathSegments pathToBlob;
          directories = butlast segments;
          filename = js_last segments
      in case getTree (Some treeSha) of
           Inl e \<Rightarrow> Inl e
         | Inr baseTree \<Rightarrow>
             (case getBlobInTree_walk baseTree directories of
                Inl e \<Rightarrow> Inl e
              | Inr subTree \<Rightarrow>
                  Inr (case filename of
                         None \<Rightarrow> None
                       | Some name \<Rightarrow> find (\<lambda>e. entry_path e = name) subTree)))"

subsection \<open>Well-formed trees\<close>

text \<open>
  A tree of the store lists every name once, and a name is not empty and holds no \<^verbatim>\<open>/\<close>;
  the same holds for the trees below it.
\<close>

fun wf_obj :: "gitobj \<Rightarrow> bool" and wf_entry :: "tree_entry \<Rightarrow> bool" where
  "wf_obj (Blob b) = True"
| "wf_obj (Tree es) = (distinct (map entry_path es) \<and> list_all wf_entry es)"
| "wf_obj (Commit n t) = wf_obj t"
| "wf_entry (Entry name m t s) = (name \<noteq> [] \<and> CHR ''/'' \<notin> set name \<and> wf_obj s)"

section \<open>Commits\<close>

text \<open>
  A commit as the client holds it. The remote answers in two shapes: the git data API
  (\<^verbatim>\<open>createCommit\<close>) puts \<^verbatim>\<open>message\<close>, \<^verbatim>\<open>author\<close>, \<^verbatim>\<open>committer\<close> and \<^verbatim>\<open>tree\<close> next to
  \<^verbatim>\<open>sha\<close> and \<^verbatim>\<open>parents\<close>; the listing APIs (\<^verbatim>\<open>getBranch\<close>, \<^verbatim>\<open>getPullRequestCommits\<close>) nest
  them in a \<^verbatim>\<open>commit\<close> property, next to \<^verbatim>\<open>sha\<close> and \<^verbatim>\<open>parents\<close>. \<open>nested\<close> says which
  shape an object has; \<open>parents\<close> lists the \<^verbatim>\<open>sha\<close> of each element of \<^verbatim>\<open>parents\<close>, and
  \<open>tree\<close> is \<^verbatim>\<open>tree.sha\<close>.
\<close>

record ('sha, 'tree) git_commit =
  sha :: 'sha
  parents :: "'sha list"
  nested :: bool
  message :: string
  author :: string
  committer :: string
  tree :: 'tree

type_synonym gcommit = "(gitobj, gitobj) git_commit"

text \<open>
  \<^verbatim>\<open>normalizeCommit\<close>: \<^verbatim>\<open>{ ...commit.commit, sha: commit.sha }\<close> keeps the nested properties
  and the SHA; the \<^verbatim>\<open>parents\<close> of the outer object are not copied.
\<close>

definition normalizeCommit :: "('sha, 'tree) git_commit \<Rightarrow> ('sha, 'tree) git_commit" where
  "normalizeCommit commit =
     (if nested commit then commit\<lparr>nested := False, parents := []\<rparr> else commit)"

text \<open>
  \<^verbatim>\<open>assertHead\<close>. \<^verbatim>\<open>headToAssert.parents[0].sha\<close> is evaluated first and throws when the head has
  no parent; \<^verbatim>\<open>last(commits).sha\<close> throws when the list is empty.
\<close>

definition assertHead ::
  "('sha, 'tree) git_commit list \<Rightarrow> ('sha, 'tree) git_commit
     \<Rightarrow> error + ('sha, 'tree) git_commit list" where
  "assertHead commits headToAssert =
     (case js_nth (parents headToAssert) 0 of
        None \<Rightarrow> Inl TypeError
      | Some parentSha \<Rightarrow>
          (case js_last commits of
             None \<Rightarrow> Inl TypeError
           | Some lastCommit \<Rightarrow>
               (let headIsMissing = (parentSha = sha lastCommit);
                    headIsNotMissing = (sha headToAssert = sha lastCommit)
                in if headIsMissing then Inr (commits @ [headToAssert])
                   else if headIsNotMissing then Inr commits
                   else Inl (Error ''Editorial workflow branch changed unexpectedly.''))))"

section \<open>Files, metadata and pull requests\<close>

text \<open>
  A file object as \<^verbatim>\<open>persistFiles\<close>, \<^verbatim>\<open>composeFileTree\<close> and \<^verbatim>\<open>updateTree\<close> see it: an entry
  or media file after \<^verbatim>\<open>uploadBlob\<close>, or a \<^verbatim>\<open>{path, sha}\<close> object read from the metadata. A
  missing \<^verbatim>\<open>remove\<close> or \<^verbatim>\<open>skip\<close> property is \<open>False\<close>. \<open>file_sha\<close> is the number of the blob.
\<close>

record file_item =
  file_path :: string
  file_sha :: nat
  remove :: bool
  skip :: bool

text \<open>The \<^verbatim>\<open>pr\<close> property of the metadata: \<^verbatim>\<open>{ number, head }\<close>.\<close>

record pr_metadata =
  pr_number :: nat
  pr_head :: gitobj

text \<open>
  The object \<^verbatim>\<open>storeMetadata\<close> writes for an unpublished entry. An absent \<^verbatim>\<open>pr\<close> is \<open>None\<close>,
  an absent string is the empty string.
\<close>

record md_objects =
  objects_entry :: file_item
  objects_files :: "file_item list"

record metadata =
  md_type :: string
  pr :: "pr_metadata option"
  user :: string
  status :: string
  md_branch :: string
  collection :: string
  commitMessage :: string
  title :: string
  description :: string
  objects :: md_objects
  timeStamp :: string

text \<open>A pull request as the platform holds it.\<close>

record pull_request =
  number :: nat
  head_ref :: string
  head_sha :: gitobj
  base_ref :: string
  state :: string
  merged_at :: "string option"
  mergeable :: bool

text \<open>What a blob holds: the raw text of a file, or the JSON of a metadata object.\<close>

datatype blob_content = Raw string | Json metadata

text \<open>An item of the local cache: \<^verbatim>\<open>{ expires, data }\<close>.\<close>

record cache_item =
  expires :: nat
  data :: metadata

section \<open>The client and the remote as one state\<close>

text \<open>
  A promise, once the operation has run as far as it can: resolved, rejected, or never
  settled.
\<close>

datatype 'a outcome = Resolved 'a | Rejected error | Pending

text \<open>
  Everything an operation can read or change. \<open>faults\<close> is the environment: the fate of
  the requests still to come, in order (\<open>None\<close>: the remote answers; \<open>Some (status, message)\<close>:
  the request is rejected with that status and message; past the end of the list every
  request is answered). \<open>now\<close> is \<^verbatim>\<open>Date.now()\<close>. \<open>next_id\<close>, \<open>login\<close>, \<open>blobs\<close>, \<open>remote_commits\<close>,
  \<open>refs\<close> and \<open>pulls\<close> are the remote: the next free object number, the authenticated user,
  the blobs, the commits it knows, its refs (\<^verbatim>\<open>heads/<name>\<close>, \<^verbatim>\<open>meta/<name>\<close>) and the pull
  requests. \<open>trees_posted\<close> lists the trees created by \<^verbatim>\<open>createTree\<close> requests of the rebase.
  \<open>cache\<close> is \<^verbatim>\<open>localForage\<close> under \<^verbatim>\<open>gh.meta.<key>\<close>; \<open>userPromise\<close> is \<^verbatim>\<open>this._userPromise\<close>
  (the login of the user, once asked for); \<open>sem_current\<close> and \<open>sem_queue\<close> are
  \<^verbatim>\<open>this._metadataSemaphore\<close>, a \<^verbatim>\<open>semaphore(1)\<close>: the slots taken and the tasks waiting.
\<close>

record world =
  faults :: "(nat \<times> string) option list"
  now :: nat
  next_id :: nat
  login :: string
  blobs :: "nat \<rightharpoonup> blob_content"
  trees_posted :: "gitobj list"
  remote_commits :: "gcommit list"
  refs :: "string \<rightharpoonup> gitobj"
  pulls :: "nat \<rightharpoonup> pull_request"
  cache :: "string \<rightharpoonup> cache_item"
  userPromise :: "string outcome option"
  sem_current :: nat
  sem_queue :: "(string \<times> metadata) list"

text \<open>\<^verbatim>\<open>p.then(f)\<close> and \<^verbatim>\<open>await\<close>: \<open>f\<close> runs on the value of a resolved promise only.\<close>

type_synonym 'a promise = "world \<Rightarrow> 'a outcome \<times> world"

definition andThen :: "'a promise \<Rightarrow> ('a \<Rightarrow> 'b promise) \<Rightarrow> 'b promise" where
  "andThen p f w0 =
     (case p w0 of
        (Resolved x, w) \<Rightarrow> f x w
      | (Rejected e, w) \<Rightarrow> (Rejected e, w)
      | (Pending, w) \<Rightarrow> (Pending, w))"

text \<open>\<^verbatim>\<open>p.catch(h)\<close> and \<^verbatim>\<open>try { await p } catch (e) { h }\<close>.\<close>

definition catch :: "'a promise \<Rightarrow> (error \<Rightarrow> 'a promise) \<Rightarrow> 'a promise" where
  "catch p h w0 =
     (case p w0 of
        (Resolved x, w) \<Rightarrow> (Resolved x, w)
      | (Rejected e, w) \<Rightarrow> h e w
      | (Pending, w) \<Rightarrow> (Pending, w))"

text \<open>
  \<^verbatim>\<open>request\<close>: the environment decides first whether the request gets through; if it does,
  \<open>respond\<close> is what the remote does and answers. Every failure reaches the caller as an
  \<^verbatim>\<open>APIError\<close> (\<^verbatim>\<open>handleRequestError\<close>).
\<close>

definition settle :: "(error + 'a) \<times> world \<Rightarrow> 'a outcome \<times> world" where
  "settle r = (case r of (Inl e, w) \<Rightarrow> (Rejected e, w) | (Inr x, w) \<Rightarrow> (Resolved x, w))"

definition resolve :: "'a \<Rightarrow> 'a promise" where
  "resolve x w = (Resolved x, w)"

definition reject :: "error \<Rightarrow> 'a promise" where
  "reject e w = (Rejected e, w)"

definition request :: "(world \<Rightarrow> (error + 'a) \<times> world) \<Rightarrow> 'a promise" where
  "request respond w =
     (case faults w of
        [] \<Rightarrow> settle (respond w)
      | None # rest \<Rightarrow> settle (respond (w\<lparr>faults := rest\<rparr>))
      | Some (code, msg) # rest \<Rightarrow> (Rejected (APIError code msg), w\<lparr>faults := rest\<rparr>))"

section \<open>Commit creation and the rebase engine\<close>

text \<open>
  \<^verbatim>\<open>createCommit(message, treeSha, parents, author, committer)\<close>. The remote numbers the new
  commit, fills an omitted author or committer with the authenticated user, and answers
  with the commit in the flat shape.
\<close>

definition createCommit ::
  "string \<Rightarrow> gitobj \<Rightarrow> gitobj list \<Rightarrow> string option \<Rightarrow> string option \<Rightarrow> gcommit promise" where
  "createCommit msg treeSha parentShas auth comm =
     request (\<lambda>w.
       let c = \<lparr>sha = Commit (next_id w) treeSha, parents = parentShas, nested = False,
                message = msg,
                author = (case auth of None \<Rightarrow> login w | Some a \<Rightarrow> a),
                committer = (case comm of None \<Rightarrow> login w | Some a \<Rightarrow> a),
                tree = treeSha\<rparr>
       in (Inr c, w\<lparr>next_id := Suc (next_id w), remote_commits := remote_commits w @ [c]\<rparr>))"

text \<open>
  \<^verbatim>\<open>rebaseSingleBlobCommit(baseCommit, commit, pathToBlob)\<close>: read the blob of \<open>commit\<close>'s tree
  at the path, graft it into the tree of \<open>baseCommit\<close>, and commit the new tree with the
  message, author and committer of \<open>commit\<close> on top of \<open>baseCommit\<close>.
\<close>

definition rebaseSingleBlobCommit :: "gcommit \<Rightarrow> gcommit \<Rightarrow> string \<Rightarrow> gcommit promise" where
  "rebaseSingleBlobCommit baseCommit commit pathToBlob =
     (let parent = [sha baseCommit]
      in andThen (request (\<lambda>w. (getBlobInTree (tree commit) pathToBlob, w))) (\<lambda>blob.
         andThen (request (\<lambda>w.
             case createTree (Some (tree baseCommit))
                    [case blob of
                       None \<Rightarrow> PathOnly pathToBlob
                     | Some e \<Rightarrow> Update pathToBlob (entry_mode e) (entry_type e) (Some (entry_sha e))]
             of Inl e \<Rightarrow> (Inl e, w)
              | Inr t \<Rightarrow> (Inr t, w\<lparr>trees_posted := trees_posted w @ [t]\<rparr>))) (\<lambda>newTree.
         createCommit (message commit) newTree parent (Some (author commit)) (Some (committer commit)))))"

text \<open>
  The \<^verbatim>\<open>reduce\<close> of \<^verbatim>\<open>rebaseSingleBlobCommits\<close>: each commit is replayed on the commit the
  previous step resolved with; a rejection skips the remaining steps.
\<close>

fun rebaseSingleBlobCommits_reduce :: "gcommit \<Rightarrow> gcommit list \<Rightarrow> string \<Rightarrow> gcommit promise" where
  "rebaseSingleBlobCommits_reduce newParent [] pathToBlob w = (Resolved newParent, w)"
| "rebaseSingleBlobCommits_reduce newParent (commit # rest) pathToBlob w =
     (case rebaseSingleBlobCommit (normalizeCommit newParent) (normalizeCommit commit) pathToBlob w of
        (Resolved replayed, w') \<Rightarrow> rebaseSingleBlobCommits_reduce replayed rest pathToBlob w'
      | (Rejected e, w') \<Rightarrow> (Rejected e, w')
      | (Pending, w') \<Rightarrow> (Pending, w'))"

text \<open>
  \<^verbatim>\<open>rebaseSingleBlobCommits(baseCommit, commits, pathToBlob)\<close>. The guard reads
  \<^verbatim>\<open>commits[0].parents[0].sha\<close>, which throws when the first commit lists no parent. When no
  rebase is needed the value is \<^verbatim>\<open>last(commits)\<close>, \<^verbatim>\<open>undefined\<close> (\<open>None\<close>) for the empty list.
\<close>

definition rebaseSingleBlobCommits ::
  "gcommit \<Rightarrow> gcommit list \<Rightarrow> string \<Rightarrow> gcommit option promise" where
  "rebaseSingleBlobCommits baseCommit commits pathToBlob =
     (case commits of
        [] \<Rightarrow> resolve (js_last commits)
      | first # rest \<Rightarrow>
          (case js_nth (parents first) 0 of
             None \<Rightarrow> reject TypeError
           | Some parentSha \<Rightarrow>
               if parentSha = sha baseCommit then resolve (js_last commits)
               else andThen (rebaseSingleBlobCommits_reduce baseCommit commits pathToBlob)
                      (\<lambda>newHead. resolve (Some newHead))))"

section \<open>File trees and tree updates\<close>

subsection \<open>Plain objects\<close>

text \<open>
  \<^verbatim>\<open>composeFileTree\<close> and \<^verbatim>\<open>updateTree\<close> keep their tables in plain objects (\<^verbatim>\<open>{}\<close>). Such an
  object is modelled by the list of its own properties, in the order in which they were
  created. Reading \<^verbatim>\<open>obj[name]\<close> finds an own property, and otherwise what every plain object
  inherits from \<^verbatim>\<open>Object.prototype\<close>: under the names below a function of the runtime (under
  \<^verbatim>\<open>__proto__\<close> the prototype itself). An inherited member is truthy, and it has no property
  \<^verbatim>\<open>file\<close>, \<^verbatim>\<open>remove\<close> or \<^verbatim>\<open>sha\<close>.
\<close>

definition Object_prototype :: "string list" where
  "Object_prototype =
     [''constructor'', ''__defineGetter__'', ''__defineSetter__'', ''hasOwnProperty'',
      ''__lookupGetter__'', ''__lookupSetter__'', ''isPrototypeOf'', ''propertyIsEnumerable'',
      ''toString'', ''valueOf'', ''__proto__'', ''toLocaleString'']"

datatype 'a property = Own 'a | Inherited | Absent

definition js_get :: "(string \<times> 'a) list \<Rightarrow> string \<Rightarrow> 'a property" where
  "js_get obj name =
     (case map_of obj name of
        Some v \<Rightarrow> Own v
      | None \<Rightarrow> if name \<in> set Object_prototype then Inherited else Absent)"

text \<open>
  \<^verbatim>\<open>for (name in obj)\<close> goes through the own properties: first those whose name is an array
  index (a decimal number below \<open>2\<^sup>3\<^sup>2 - 1\<close>, written without a leading zero), by ascending
  number, then the others in the order of their creation. Nothing enumerable is inherited.
\<close>

definition array_index :: "string \<Rightarrow> int option" where
  "array_index name =
     (if name \<noteq> [] \<and> list_all (\<lambda>c. c \<in> set ''0123456789'') name
           \<and> (name = ''0'' \<or> hd name \<noteq> CHR ''0'') \<and> length name \<le> 10
      then (let n = foldl (\<lambda>a c. 10 * a + (of_char c - 48)) 0 name
            in if n < 4294967295 then Some n else None)
      else None)"

definition for_in :: "(string \<times> 'a) list \<Rightarrow> (string \<times> 'a) list" where
  "for_in obj =
     sort_key (\<lambda>(name, v). case array_index name of Some n \<Rightarrow> n | None \<Rightarrow> 0)
       (filter (\<lambda>(name, v). array_index name \<noteq> None) obj)
     @ filter (\<lambda>(name, v). array_index name = None) obj"

subsection \<open>The file tree\<close>

text \<open>
  The nested object \<^verbatim>\<open>composeFileTree\<close> builds. \<open>File file\<close> is one of the file objects
  handed to it, which it marks \<^verbatim>\<open>file: true\<close>; \<open>Dir props\<close> is an object it created with
  \<^verbatim>\<open>{}\<close> for a directory, with the own properties \<open>props\<close>. The source keeps no such tag:
  \<^verbatim>\<open>updateTree\<close> takes for a file whatever has a truthy property \<^verbatim>\<open>file\<close>, and so also
  a directory object with an own property of that name.
\<close>

datatype ftree = File file_item | Dir "(string \<times> ftree) list"

type_synonym fileTree = "(string \<times> ftree) list"

text \<open>
  The inner loop of \<^verbatim>\<open>composeFileTree\<close> for one file: walk the directories \<^verbatim>\<open>parts\<close> with
  \<^verbatim>\<open>subtree[part] = subtree[part] || {}\<close>, then set \<^verbatim>\<open>subtree[filename] = file\<close>. The model
  follows the walk through the objects created for directories. It does not follow it
  where the source goes on inside another kind of object: when \<^verbatim>\<open>subtree[part]\<close> is a file
  object stored before or an inherited member (the walk then writes into that object),
  and when the file name is \<^verbatim>\<open>__proto__\<close> (the assignment then replaces the prototype of the
  directory object). These cases end in \<open>NotModelled\<close>.
\<close>

fun composeFileTree_insert ::
  "string list \<Rightarrow> string \<Rightarrow> file_item \<Rightarrow> fileTree \<Rightarrow> error + fileTree" where
  "composeFileTree_insert [] filename file subtree =
     (if filename = ''__proto__'' then Inl NotModelled
      else Inr (AList.update filename (File file) subtree))"
| "composeFileTree_insert (part # parts) filename file subtree =
     (case js_get subtree part of
        Absent \<Rightarrow>
          (case composeFileTree_insert parts filename file [] of
             Inl e \<Rightarrow> Inl e
           | Inr sub \<Rightarrow> Inr (AList.update part (Dir sub) subtree))
      | Own (Dir props) \<Rightarrow>
          (case composeFileTree_insert parts filename file props of
             Inl e \<Rightarrow> Inl e
           | Inr sub \<Rightarrow> Inr (AList.update part (Dir sub) subtree))
      | Own (File other) \<Rightarrow> Inl NotModelled
      | Inherited \<Rightarrow> Inl NotModelled)"

text \<open>
  \<^verbatim>\<open>composeFileTree(files)\<close>. \<^verbatim>\<open>parts.pop()\<close> on a path without segments is \<^verbatim>\<open>undefined\<close>, and
  the file is stored under the property name \<^verbatim>\<open>undefined\<close>.
\<close>

definition composeFileTree :: "file_item list \<Rightarrow> error + fileTree" where
  "composeFileTree files =
     fold (\<lambda>file composed.
             case composed of
               Inl e \<Rightarrow> Inl e
             | Inr fileTree \<Rightarrow>
                 if skip file then Inr fileTree
                 else (let parts = pathSegments (file_path file);
                           filename = (case js_last parts of None \<Rightarrow> ''undefined'' | Some name \<Rightarrow> name)
                       in composeFileTree_insert (butlast parts) filename file fileTree))
          files (Inr [])"

text \<open>
  The value \<^verbatim>\<open>updateTree\<close> resolves with:
  \<^verbatim>\<open>{ path, mode: '040000', type: 'tree', sha: response.sha, parentSha: sha }\<close>.
\<close>

record change_tree =
  ct_path :: string
  ct_mode :: string
  ct_type :: string
  ct_sha :: gitobj
  parentSha :: "gitobj option"

text \<open>An \<^verbatim>\<open>updateTree\<close> result as an element of the \<^verbatim>\<open>tree\<close> array of the enclosing call.\<close>

definition change_update :: "change_tree \<Rightarrow> tree_update" where
  "change_update c = Update (ct_path c) (ct_mode c) (ct_type c) (Some (ct_sha c))"

text \<open>\<^verbatim>\<open>Promise.all(updates)\<close>: all values, or the rejection of the first promise that fails.\<close>

fun promise_all :: "(error + 'a) list \<Rightarrow> error + 'a list" where
  "promise_all [] = Inr []"
| "promise_all (Inl e # rest) = Inl e"
| "promise_all (Inr x # rest) = (case promise_all rest of Inl e \<Rightarrow> Inl e | Inr xs \<Rightarrow> Inr (x # xs))"

text \<open>
  The update pushed for what passes the test \<^verbatim>\<open>fileOrDir.file\<close>. For an entry \<^verbatim>\<open>obj\<close> of the
  base tree it is \<^verbatim>\<open>{ path: obj.path, mode: obj.mode, type: obj.type, sha }\<close> with
  \<^verbatim>\<open>sha = fileOrDir.remove ? null : fileOrDir.sha\<close>; for a name the base tree does not list
  it is \<^verbatim>\<open>{ path: filename, mode: '100644', type: 'blob', sha: fileOrDir.sha }\<close>. A directory
  object that passes the test has a truthy \<^verbatim>\<open>remove\<close> when it has an own property of that
  name, and its \<^verbatim>\<open>sha\<close> is \<^verbatim>\<open>undefined\<close> or the object stored under that name: no SHA is
  posted.
\<close>

definition existing_leaf :: "tree_entry \<Rightarrow> ftree \<Rightarrow> tree_update" where
  "existing_leaf obj fileOrDir =
     (case fileOrDir of
        File file \<Rightarrow>
          Update (entry_path obj) (entry_mode obj) (entry_type obj)
            (if remove file then None else Some (Blob (file_sha file)))
      | Dir props \<Rightarrow>
          if map_of props ''remove'' \<noteq> None
          then Update (entry_path obj) (entry_mode obj) (entry_type obj) None
          else NoSha (entry_path obj) (entry_mode obj) (entry_type obj))"

definition added_leaf :: "string \<Rightarrow> ftree \<Rightarrow> tree_update" where
  "added_leaf filename fileOrDir =
     (case fileOrDir of
        File file \<Rightarrow> Update filename ''100644'' ''blob'' (Some (Blob (file_sha file)))
      | Dir props \<Rightarrow> NoSha filename ''100644'' ''blob'')"

text \<open>
  The recursive call \<^verbatim>\<open>updateTree(obj.sha, obj.path, fileOrDir)\<close> where \<^verbatim>\<open>fileOrDir\<close> is an
  inherited member. The tree is requested first, which fails when the entry is not a
  tree. For an empty tree nothing is looked up in the member, and the member has no
  enumerable property: an empty list of updates is posted. For any other tree the entries
  are looked up in the member, which the model does not follow.
\<close>

definition updateTree_inherited :: "gitobj \<Rightarrow> string \<Rightarrow> error + change_tree" where
  "updateTree_inherited sha' path' =
     (case getTree (Some sha') of
        Inl e \<Rightarrow> Inl e
      | Inr [] \<Rightarrow>
          (case createTree (Some sha') [] of
             Inl e \<Rightarrow> Inl e
           | Inr newSha \<Rightarrow>
               Inr \<lparr>ct_path = path', ct_mode = ''040000'', ct_type = ''tree'',
                    ct_sha = newSha, parentSha = Some sha'\<rparr>)
      | Inr (obj # rest) \<Rightarrow> Inl NotModelled)"

lemma map_of_size_ftree:
  "map_of fileTree name = Some node \<Longrightarrow> size node < Suc (size_list (size_prod (\<lambda>x. 0) size) fileTree)"
  by (induction fileTree) (auto split: if_splits)

lemma js_get_Own: "js_get obj name = Own v \<Longrightarrow> map_of obj name = Some v"
  by (auto simp: js_get_def split: option.splits if_splits)

lemma set_for_in: "set (for_in obj) = set obj"
  by (auto simp: for_in_def)

text \<open>
  \<^verbatim>\<open>updateTree(sha, path, fileTree)\<close>. The first loop goes through the entries of the base
  tree: an entry for whose name \<^verbatim>\<open>fileTree[obj.path]\<close> is truthy is marked in \<^verbatim>\<open>added\<close> and
  replaced, by the update of a leaf when the value passes the test \<^verbatim>\<open>fileOrDir.file\<close>, and
  otherwise by the result of the recursive call on the entry's tree. The second loop goes
  through the properties of \<^verbatim>\<open>fileTree\<close> and adds those for which \<^verbatim>\<open>added[filename]\<close> is not
  truthy; \<^verbatim>\<open>added\<close> is a plain object too, so that the inherited names count as added. The
  updates are posted as one tree on top of the base tree.
\<close>

function updateTree :: "gitobj option \<Rightarrow> string \<Rightarrow> fileTree \<Rightarrow> error + change_tree" where
  "updateTree sha' path' fileTree =
     (case getTree sha' of
        Inl e \<Rightarrow> Inl e
      | Inr listing \<Rightarrow>
          (let existing =
                 concat (map (\<lambda>obj.
                     case js_get fileTree (entry_path obj) of
                       Absent \<Rightarrow> []
                     | Inherited \<Rightarrow>
                         [map_sum id change_update
                            (updateTree_inherited (entry_sha obj) (entry_path obj))]
                     | Own (File file) \<Rightarrow> [Inr (existing_leaf obj (File file))]
                     | Own (Dir props) \<Rightarrow>
                         if map_of props ''file'' \<noteq> None then [Inr (existing_leaf obj (Dir props))]
                         else [map_sum id change_update
                                 (updateTree (Some (entry_sha obj)) (entry_path obj) props)])
                   listing);
               added = map entry_path
                         (filter (\<lambda>obj. js_get fileTree (entry_path obj) \<noteq> Absent) listing);
               new = map (\<lambda>(filename, fileOrDir).
                           case fileOrDir of
                             File file \<Rightarrow> Inr (added_leaf filename (File file))
                           | Dir props \<Rightarrow>
                               if map_of props ''file'' \<noteq> None
                               then Inr (added_leaf filename (Dir props))
                               else map_sum id change_update (updateTree None filename props))
                       (filter (\<lambda>(filename, fileOrDir).
                                  filename \<notin> set added \<and> filename \<notin> set Object_prototype)
                          (for_in fileTree))
           in case promise_all (existing @ new) of
                Inl e \<Rightarrow> Inl e
              | Inr updates \<Rightarrow>
                  (case createTree sha' updates of
                     Inl e \<Rightarrow> Inl e
                   | Inr newSha \<Rightarrow>
                       Inr \<lparr>ct_path = path', ct_mode = ''040000'', ct_type = ''tree'',
                            ct_sha = newSha, parentSha = sha'\<rparr>)))"
  by pat_completeness auto
termination
proof (relation "measure (\<lambda>(s, p, fileTree). size_list (size_prod (\<lambda>x. 0) size) fileTree)")
  show "wf (measure (\<lambda>(s, p, fileTree). size_list (size_prod (\<lambda>x. 0) size) fileTree))"
    by simp
next
  fix sha' :: "gitobj option" and path' :: string and fileTree :: fileTree
    and listing obj node props
  assume "js_get fileTree (entry_path obj) = Own node" and "node = Dir props"
  then show "((Some (entry_sha obj), entry_path obj, props), sha', path', fileTree)
      \<in> measure (\<lambda>(s, p, fileTree). size_list (size_prod (\<lambda>x. 0) size) fileTree)"
    using map_of_size_ftree[of fileTree "entry_path obj" "Dir props"] js_get_Own by fastforce
next
  fix sha' :: "gitobj option" and path' :: string and fileTree :: fileTree
    and filename :: string and fileOrDir props and pair :: "string \<times> ftree" and added :: "string list"
  assume "pair \<in> set (filter (\<lambda>(filename, fileOrDir).
                                  filename \<notin> set added \<and> filename \<notin> set Object_prototype)
                          (for_in fileTree))"
    and "(filename, fileOrDir) = pair" and "fileOrDir = Dir props"
  then have "(filename, Dir props) \<in> set fileTree" by (auto simp: set_for_in)
  then have "size (Dir props) \<le> size_list (size_prod (\<lambda>x. 0) size) fileTree"
    by (induction fileTree) auto
  then show "((None, filename, props), sha', path', fileTree)
      \<in> measure (\<lambda>(s, p, fileTree). size_list (size_prod (\<lambda>x. 0) size) fileTree)"
    by simp
qed

declare updateTree.simps [simp del]

text \<open>
  \<^verbatim>\<open>commit(message, changeTree)\<close>: the parent is \<^verbatim>\<open>changeTree.parentSha\<close> when there is one; no
  author and no committer are given.
\<close>

definition commit :: "string \<Rightarrow> change_tree \<Rightarrow> gcommit promise" where
  "commit msg changeTree =
     createCommit msg (ct_sha changeTree)
       (case parentSha changeTree of None \<Rightarrow> [] | Some parent \<Rightarrow> [parent]) None None"

section \<open>Refs and branches\<close>

text \<open>The key of a ref in \<open>refs\<close>: \<^verbatim>\<open>heads/<name>\<close> or \<^verbatim>\<open>meta/<name>\<close>.\<close>

definition refKey :: "string \<Rightarrow> string \<Rightarrow> string" where
  "refKey type name = type @ ''/'' @ name"

definition find_commit :: "world \<Rightarrow> gitobj \<Rightarrow> gcommit option" where
  "find_commit w s = find (\<lambda>c. sha c = s) (remote_commits w)"

text \<open>\<^verbatim>\<open>createRef(type, name, sha)\<close>; the value is the \<^verbatim>\<open>object.sha\<close> of the response.\<close>

definition createRef :: "string \<Rightarrow> string \<Rightarrow> gitobj \<Rightarrow> gitobj promise" where
  "createRef type name s =
     request (\<lambda>w.
       if refs w (refKey type name) \<noteq> None then (Inl (APIError 422 ''Reference already exists''), w)
       else (Inr s, w\<lparr>refs := (refs w)(refKey type name \<mapsto> s)\<rparr>))"

text \<open>
  \<^verbatim>\<open>patchRef(type, name, sha, opts)\<close>. Without \<^verbatim>\<open>force\<close> the remote moves a ref forward only:
  to the commit it points at or to a child of it.
\<close>

definition patchRef :: "string \<Rightarrow> string \<Rightarrow> gitobj \<Rightarrow> bool \<Rightarrow> gitobj promise" where
  "patchRef type name s force =
     request (\<lambda>w.
       case refs w (refKey type name) of
         None \<Rightarrow> (Inl (APIError 422 ''Reference does not exist''), w)
       | Some old \<Rightarrow>
           (case find_commit w s of
              None \<Rightarrow> (Inl (APIError 422 ''Object does not exist''), w)
            | Some c \<Rightarrow>
                if force \<or> old = s \<or> old \<in> set (parents c)
                then (Inr s, w\<lparr>refs := (refs w)(refKey type name \<mapsto> s)\<rparr>)
                else (Inl (APIError 422 ''Update is not a fast forward''), w)))"

definition deleteRef :: "string \<Rightarrow> string \<Rightarrow> unit promise" where
  "deleteRef type name =
     request (\<lambda>w.
       case refs w (refKey type name) of
         None \<Rightarrow> (Inl (APIError 422 ''Reference does not exist''), w)
       | Some old \<Rightarrow> (Inr (), w\<lparr>refs := (refs w)(refKey type name := None)\<rparr>))"


definition createBranch :: "string \<Rightarrow> gitobj \<Rightarrow> gitobj promise" where
  "createBranch branchName s = createRef ''heads'' branchName s"



definition deleteBranch :: "string \<Rightarrow> unit promise" where
  "deleteBranch branchName = deleteRef ''heads'' branchName"

section \<open>Pull requests\<close>

text \<open>
  \<^verbatim>\<open>getPullRequest(prNumber)\<close>. (The URL the source builds ends in a blank and a closing
  brace after the number; the remote is taken to answer for the pull request of that number
  all the same.)
\<close>

definition getPullRequest :: "nat \<Rightarrow> pull_request promise" where
  "getPullRequest prNumber =
     request (\<lambda>w.
       case pulls w prNumber of
         None \<Rightarrow> (Inl (APIError 404 ''Not Found''), w)
       | Some p \<Rightarrow> (Inr p, w))"

text \<open>
  \<^verbatim>\<open>createPR(title, head)\<close>. The platform numbers the pull request and records the tip of the
  head branch; it refuses a head branch that does not exist.
\<close>

definition createPR_request :: "api \<Rightarrow> string \<Rightarrow> string \<Rightarrow> pull_request promise" where
  "createPR_request this title' head =
     request (\<lambda>w.
       case refs w (refKey ''heads'' head) of
         None \<Rightarrow> (Inl (APIError 422 ''Validation Failed''), w)
       | Some s \<Rightarrow>
           (let p = \<lparr>number = next_id w, head_ref = head, head_sha = s, base_ref = branch this,
                     state = ''open'', merged_at = None, mergeable = True\<rparr>
            in (Inr p, w\<lparr>next_id := Suc (next_id w), pulls := (pulls w)(next_id w \<mapsto> p)\<rparr>)))"

text \<open>\<^verbatim>\<open>user()\<close>: the request is sent once; its promise is kept and handed out again.\<close>

definition user_login :: "string promise" where
  "user_login w =
     (case userPromise w of
        Some settled \<Rightarrow> (settled, w)
      | None \<Rightarrow>
          (case request (\<lambda>w. (Inr (login w), w)) w of
             (settled, w') \<Rightarrow> (settled, w'\<lparr>userPromise := Some settled\<rparr>)))"

text \<open>
  In open-authoring mode the head is named \<^verbatim>\<open>`${login}:${head}`\<close>, for which the login of
  the user is awaited first; the platform finds the branch in the fork of that user.
\<close>

definition createPR :: "api \<Rightarrow> string \<Rightarrow> string \<Rightarrow> pull_request promise" where
  "createPR this title' head =
     (if useOpenAuthoring this
      then andThen user_login (\<lambda>name. createPR_request this title' head)
      else createPR_request this title' head)"

text \<open>\<^verbatim>\<open>openPR\<close> and \<^verbatim>\<open>closePR\<close> patch the state of the pull request with the given number.\<close>

definition patchPR :: "nat \<Rightarrow> string \<Rightarrow> pull_request promise" where
  "patchPR prNumber newState =
     request (\<lambda>w.
       case pulls w prNumber of
         None \<Rightarrow> (Inl (APIError 404 ''Not Found''), w)
       | Some p \<Rightarrow>
           if newState = ''open'' \<and> merged_at p \<noteq> None
           then (Inl (APIError 422 ''Validation Failed''), w)
           else (Inr (p\<lparr>state := newState\<rparr>),
                 w\<lparr>pulls := (pulls w)(prNumber \<mapsto> p\<lparr>state := newState\<rparr>)\<rparr>))"

definition openPR :: "pr_metadata \<Rightarrow> pull_request promise" where
  "openPR pullRequest = patchPR (pr_number pullRequest) ''open''"

definition closePR :: "pr_metadata \<Rightarrow> pull_request promise" where
  "closePR pullRequest = patchPR (pr_number pullRequest) ''closed''"






section \<open>The metadata store\<close>

definition DEFAULT_COMMIT_MESSAGE :: string where
  "DEFAULT_COMMIT_MESSAGE = ''Automatically generated by Netlify CMS''"

definition META_REF :: string where
  "META_REF = ''_netlify_cms''"

text \<open>
  A string built into a template literal: \<^verbatim>\<open>undefined\<close> is written out as such.
\<close>

definition js_string :: "string option \<Rightarrow> string" where
  "js_string v = (case v of None \<Rightarrow> ''undefined'' | Some s \<Rightarrow> s)"

text \<open>
  The request of \<^verbatim>\<open>retrieveMetadata\<close>: the raw contents of \<^verbatim>\<open>${key}.json\<close> at the ref
  \<^verbatim>\<open>refs/meta/_netlify_cms\<close> of the repository at \<open>repoURL'\<close>. The state is the repository of
  the client; any other repository is not found.
\<close>

definition contents_request :: "api \<Rightarrow> string \<Rightarrow> string \<Rightarrow> blob_content promise" where
  "contents_request this repoURL' key =
     request (\<lambda>w.
       if repoURL' \<noteq> ''/repos/'' @ repo this then (Inl (APIError 404 ''Not Found''), w)
       else (case refs w (refKey ''meta'' META_REF) of
               None \<Rightarrow> (Inl (APIError 404 ''Not Found''), w)
             | Some s \<Rightarrow>
                 (case tree_at s (js_split CHR ''/'' (key @ ''.json'')) of
                    None \<Rightarrow> (Inl (APIError 404 ''Not Found''), w)
                  | Some e \<Rightarrow>
                      (case entry_sha e of
                         Blob b \<Rightarrow>
                           (case blobs w b of
                              None \<Rightarrow> (Inl (APIError 404 ''Not Found''), w)
                            | Some content \<Rightarrow> (Inr content, w))
                       | Tree es \<Rightarrow> (Inl (APIError 404 ''Not Found''), w)
                       | Commit n t \<Rightarrow> (Inl (APIError 404 ''Not Found''), w)))))"

text \<open>\<^verbatim>\<open>JSON.parse(response)\<close>: a blob that is not the JSON of a metadata object does not parse.\<close>

definition parse_metadata :: "blob_content \<Rightarrow> metadata promise" where
  "parse_metadata content =
     (case content of
        Json md \<Rightarrow> resolve md
      | Raw text \<Rightarrow> reject (Error ''Unexpected token in JSON''))"

text \<open>
  \<^verbatim>\<open>retrieveMetadata(key)\<close>: the cached object while it has not expired, else the object read
  from the remote. In open-authoring mode the repository is named by the first two pieces
  of the key. An error is thrown again by the handler.
\<close>

definition retrieveMetadata :: "api \<Rightarrow> string \<Rightarrow> metadata promise" where
  "retrieveMetadata this key w =
     (case cache w key of
        Some cached \<Rightarrow>
          if expires cached > now w then (Resolved (data cached), w)
          else (if \<not> useOpenAuthoring this
                then andThen (contents_request this (''/repos/'' @ repo this) key) parse_metadata w
                else (case retrieveMetadata_split key of
                        (user', repo') \<Rightarrow>
                          andThen (contents_request this
                                     (''/repos/'' @ js_string user' @ ''/'' @ js_string repo') key)
                            parse_metadata w))
      | None \<Rightarrow>
          (if \<not> useOpenAuthoring this
           then andThen (contents_request this (''/repos/'' @ repo this) key) parse_metadata w
           else (case retrieveMetadata_split key of
                   (user', repo') \<Rightarrow>
                     andThen (contents_request this
                                (''/repos/'' @ js_string user' @ ''/'' @ js_string repo') key)
                       parse_metadata w)))"

text \<open>
  \<^verbatim>\<open>uploadBlob(item)\<close>: the remote stores the content and numbers the blob; the value is the
  \<^verbatim>\<open>sha\<close> the item is given.
\<close>

definition uploadBlob :: "blob_content \<Rightarrow> nat promise" where
  "uploadBlob content =
     request (\<lambda>w. (Inr (next_id w),
                    w\<lparr>next_id := Suc (next_id w), blobs := (blobs w)(next_id w \<mapsto> content)\<rparr>))"

text \<open>
  \<^verbatim>\<open>checkMetadataRef()\<close>: the commit the metadata ref points at. When the request for the ref
  fails, for whatever reason, a root commit with a readme is created and the ref with it.
\<close>

definition checkMetadataRef :: "gitobj promise" where
  "checkMetadataRef =
     catch (request (\<lambda>w.
              case refs w (refKey ''meta'' META_REF) of
                None \<Rightarrow> (Inl (APIError 404 ''Not Found''), w)
              | Some s \<Rightarrow> (Inr s, w)))
       (\<lambda>err.
          andThen (uploadBlob (Raw (''# Netlify CMS'' @ [CHR 0x0A, CHR 0x0A] @
              ''This tree is used by the Netlify CMS to store metadata information for specific files and branches.'')))
            (\<lambda>b.
          andThen (request (\<lambda>w.
                     (createTree None [Update ''README.md'' ''100644'' ''blob'' (Some (Blob b))], w)))
            (\<lambda>t.
          andThen (commit ''First Commit''
                     \<lparr>ct_path = [], ct_mode = [], ct_type = [], ct_sha = t, parentSha = None\<rparr>)
            (\<lambda>response.
          createRef ''meta'' META_REF (sha response)))))"

text \<open>
  The awaited statements of the task of \<^verbatim>\<open>storeMetadata\<close>, from \<^verbatim>\<open>checkMetadataRef\<close> to the
  write to the cache. (The typographic quotes of the commit message are written as \<^verbatim>\<open>"\<close>.)
\<close>

definition storeMetadata_writes :: "string \<Rightarrow> metadata \<Rightarrow> unit promise" where
  "storeMetadata_writes key md =
     andThen checkMetadataRef (\<lambda>branchData.
     andThen (uploadBlob (Json md)) (\<lambda>b.
     andThen (request (\<lambda>w.
                (updateTree (Some branchData) ''/''
                   [(key @ ''.json'',
                     File \<lparr>file_path = key @ ''.json'', file_sha = b, remove = False, skip = False\<rparr>)],
                 w)))
       (\<lambda>changeTree.
     andThen (commit (''Updating '' @ [CHR 0x22] @ key @ [CHR 0x22] @ '' metadata'') changeTree)
       (\<lambda>response.
     andThen (patchRef ''meta'' META_REF (sha response) False) (\<lambda>patched w.
       (Resolved (),
        w\<lparr>cache := (cache w)(key \<mapsto> \<lparr>expires = now w + 300000, data = md\<rparr>)\<rparr>))))))"

subsection \<open>The semaphore\<close>

text \<open>
  None of the requests touches the semaphore. This is what makes the recursion
  between a task and \<^verbatim>\<open>leave\<close> below end: every task started by \<^verbatim>\<open>leave\<close> shortens the queue.
\<close>

definition keeps_semaphore :: "'a promise \<Rightarrow> bool" where
  "keeps_semaphore p \<longleftrightarrow>
     (\<forall>w. sem_queue (snd (p w)) = sem_queue w \<and> sem_current (snd (p w)) = sem_current w)"

lemma keeps_semaphore_andThen:
  assumes "keeps_semaphore p" and "\<And>x. keeps_semaphore (f x)"
  shows "keeps_semaphore (andThen p f)"
  unfolding keeps_semaphore_def
proof (intro allI)
  fix w
  obtain r w' where p: "p w = (r, w')" by (cases "p w")
  from assms(1) p have w': "sem_queue w' = sem_queue w" "sem_current w' = sem_current w"
    by (auto simp: keeps_semaphore_def dest: spec[of _ w])
  show "sem_queue (snd (andThen p f w)) = sem_queue w
      \<and> sem_current (snd (andThen p f w)) = sem_current w"
  proof (cases r)
    case (Resolved x)
    from assms(2)[of x] have "sem_queue (snd (f x w')) = sem_queue w'"
      "sem_current (snd (f x w')) = sem_current w'"
      by (auto simp: keeps_semaphore_def)
    with p Resolved w' show ?thesis by (simp add: andThen_def)
  next
    case (Rejected e)
    with p w' show ?thesis by (simp add: andThen_def)
  next
    case Pending
    with p w' show ?thesis by (simp add: andThen_def)
  qed
qed

lemma keeps_semaphore_catch:
  assumes "keeps_semaphore p" and "\<And>e. keeps_semaphore (h e)"
  shows "keeps_semaphore (catch p h)"
  unfolding keeps_semaphore_def
proof (intro allI)
  fix w
  obtain r w' where p: "p w = (r, w')" by (cases "p w")
  from assms(1) p have w': "sem_queue w' = sem_queue w" "sem_current w' = sem_current w"
    by (auto simp: keeps_semaphore_def dest: spec[of _ w])
  show "sem_queue (snd (catch p h w)) = sem_queue w
      \<and> sem_current (snd (catch p h w)) = sem_current w"
  proof (cases r)
    case (Resolved x)
    with p w' show ?thesis by (simp add: catch_def)
  next
    case (Rejected e)
    from assms(2)[of e] have "sem_queue (snd (h e w')) = sem_queue w'"
      "sem_current (snd (h e w')) = sem_current w'"
      by (auto simp: keeps_semaphore_def)
    with p Rejected w' show ?thesis by (simp add: catch_def)
  next
    case Pending
    with p w' show ?thesis by (simp add: catch_def)
  qed
qed

lemma keeps_semaphore_request:
  assumes "\<And>w. sem_queue (snd (respond w)) = sem_queue w
              \<and> sem_current (snd (respond w)) = sem_current w"
  shows "keeps_semaphore (request respond)"
  unfolding keeps_semaphore_def
proof (intro allI)
  fix w
  have s: "snd (settle r) = snd r" for r :: "(error + 'a) \<times> world"
    by (cases r; cases "fst r") (auto simp: settle_def)
  show "sem_queue (snd (request respond w)) = sem_queue w
      \<and> sem_current (snd (request respond w)) = sem_current w"
  proof (cases "faults w")
    case Nil
    then show ?thesis using assms[of w] by (simp add: request_def s)
  next
    case (Cons a rest)
    then show ?thesis using assms[of "w\<lparr>faults := rest\<rparr>"]
      by (cases a) (auto simp: request_def s)
  qed
qed

lemma keeps_semaphore_createCommit: "keeps_semaphore (createCommit m t ps a c)"
  unfolding createCommit_def by (rule keeps_semaphore_request) (simp add: Let_def)

lemma keeps_semaphore_commit: "keeps_semaphore (commit m ct)"
  unfolding commit_def by (rule keeps_semaphore_createCommit)

lemma keeps_semaphore_uploadBlob: "keeps_semaphore (uploadBlob c)"
  unfolding uploadBlob_def by (rule keeps_semaphore_request) simp

lemma keeps_semaphore_createRef: "keeps_semaphore (createRef t n s)"
  unfolding createRef_def by (rule keeps_semaphore_request) simp

lemma keeps_semaphore_patchRef: "keeps_semaphore (patchRef t n s f)"
  unfolding patchRef_def by (rule keeps_semaphore_request) (simp split: option.splits)

lemma keeps_semaphore_checkMetadataRef: "keeps_semaphore checkMetadataRef"
  unfolding checkMetadataRef_def
  by (intro keeps_semaphore_catch keeps_semaphore_andThen keeps_semaphore_request
      keeps_semaphore_uploadBlob keeps_semaphore_commit keeps_semaphore_createRef)
     (simp_all split: option.splits)

lemma keeps_semaphore_storeMetadata_writes: "keeps_semaphore (storeMetadata_writes key md)"
  unfolding storeMetadata_writes_def
  by (intro keeps_semaphore_andThen keeps_semaphore_checkMetadataRef keeps_semaphore_request
      keeps_semaphore_uploadBlob keeps_semaphore_commit keeps_semaphore_patchRef)
     (simp_all add: keeps_semaphore_def)

lemma storeMetadata_writes_semaphore:
  assumes "storeMetadata_writes key md w = (r, w')"
  shows "sem_queue w' = sem_queue w \<and> sem_current w' = sem_current w"
  using keeps_semaphore_storeMetadata_writes[of key md] assms
  by (auto simp: keeps_semaphore_def dest: spec[of _ w])

text \<open>
  The semaphore is the one of the package \<^verbatim>\<open>semaphore\<close>, with capacity 1: \<^verbatim>\<open>take(task)\<close>
  queues the task when the slot is taken and otherwise takes the slot and runs the task;
  \<^verbatim>\<open>leave()\<close> gives the slot back and runs the task at the head of the queue, if there is one.

  The task \<^verbatim>\<open>storeMetadata\<close> hands to \<^verbatim>\<open>take\<close>, and \<^verbatim>\<open>leave\<close>. The task runs its writes; when
  they all succeed it calls \<^verbatim>\<open>leave()\<close> and resolves the promise of its caller, and when one
  fails the \<^verbatim>\<open>catch\<close> block rejects that promise (and does nothing else). \<^verbatim>\<open>leave()\<close> frees a
  slot and, when a task is waiting and fits, takes the slot for it again and starts it.
\<close>

function storeMetadata_task :: "string \<Rightarrow> metadata \<Rightarrow> unit promise"
  and semaphore_leave :: "world \<Rightarrow> world" where
  "storeMetadata_task key md w =
     (case storeMetadata_writes key md w of
        (Resolved finished, w') \<Rightarrow> (Resolved (), semaphore_leave w')
      | (Rejected err, w') \<Rightarrow> (Rejected err, w')
      | (Pending, w') \<Rightarrow> (Pending, w'))"
| "semaphore_leave w =
     (let w1 = w\<lparr>sem_current := sem_current w - 1\<rparr>
      in case sem_queue w1 of
           [] \<Rightarrow> w1
         | (key, md) # waiting \<Rightarrow>
             if 1 + sem_current w1 > 1 then w1
             else snd (storeMetadata_task key md
                         (w1\<lparr>sem_queue := waiting, sem_current := sem_current w1 + 1\<rparr>)))"
  by pat_completeness auto
termination
proof (relation "measure (\<lambda>x. case x of Inl (key, md, w) \<Rightarrow> 2 * length (sem_queue w) + 1
                                       | Inr w \<Rightarrow> 2 * length (sem_queue w))")
  show "wf (measure (\<lambda>x. case x of Inl (key, md, w) \<Rightarrow> 2 * length (sem_queue w) + 1
                                       | Inr w \<Rightarrow> 2 * length (sem_queue w)))" by simp
next
  fix key md w x1 w' finished
  assume "(x1, w') = storeMetadata_writes key md w" "x1 = Resolved finished"
  then have "sem_queue w' = sem_queue w"
    using storeMetadata_writes_semaphore[of key md w x1 w'] by simp
  then show "(Inr w', Inl (key, md, w)) \<in> measure (\<lambda>x. case x of Inl (key, md, w) \<Rightarrow> 2 * length (sem_queue w) + 1
                                       | Inr w \<Rightarrow> 2 * length (sem_queue w))"
    by simp
next
  fix w w1 a waiting key md
  assume "w1 = w\<lparr>sem_current := sem_current w - 1\<rparr>" "sem_queue w1 = a # waiting" "(key, md) = a"
    "\<not> 1 < 1 + sem_current w1"
  then show "(Inl (key, md, w1\<lparr>sem_queue := waiting, sem_current := sem_current w1 + 1\<rparr>), Inr w)
       \<in> measure (\<lambda>x. case x of Inl (key, md, w) \<Rightarrow> 2 * length (sem_queue w) + 1
                                       | Inr w \<Rightarrow> 2 * length (sem_queue w))"
    by simp
qed


declare storeMetadata_task.simps [simp del]
declare semaphore_leave.simps [simp del]

text \<open>
  \<^verbatim>\<open>storeMetadata(key, data)\<close>: \<^verbatim>\<open>take\<close> starts the task when a slot of the semaphore is free;
  otherwise the task is queued, and the promise of the caller is not settled.
\<close>

definition storeMetadata :: "string \<Rightarrow> metadata \<Rightarrow> unit promise" where
  "storeMetadata key md w =
     (if sem_current w + 1 > 1 then (Pending, w\<lparr>sem_queue := sem_queue w @ [(key, md)]\<rparr>)
      else storeMetadata_task key md (w\<lparr>sem_current := sem_current w + 1\<rparr>))"

section \<open>The editorial workflow\<close>

text \<open>
  \<^verbatim>\<open>updateUnpublishedEntryStatus(collectionName, slug, status)\<close>. Of a pull request it creates,
  the metadata records the number and the head; the head is kept here as the SHA of its tip.
\<close>

definition updateUnpublishedEntryStatus :: "api \<Rightarrow> string \<Rightarrow> string \<Rightarrow> string \<Rightarrow> unit promise" where
  "updateUnpublishedEntryStatus this collectionName slug newStatus =
     (let contentKey = generateContentKey this collectionName slug
      in andThen (retrieveMetadata this contentKey) (\<lambda>md.
           if \<not> useOpenAuthoring this
           then storeMetadata contentKey (md\<lparr>status := newStatus\<rparr>)
           else if newStatus = ''pending_publish''
           then reject (Error (''Open Authoring entries may not be set to the status '' @
                     [CHR 0x22] @ ''pending_publish'' @ [CHR 0x22] @ ''.''))
           else (case pr md of
                   Some prMetadata \<Rightarrow>
                     andThen (getPullRequest (pr_number prMetadata)) (\<lambda>originPRInfo.
                       if state originPRInfo = ''open'' \<and> newStatus = ''draft''
                       then andThen (closePR prMetadata) (\<lambda>closed.
                              storeMetadata contentKey (md\<lparr>status := newStatus\<rparr>))
                       else if state originPRInfo = ''closed'' \<and> newStatus = ''pending_review''
                       then andThen (openPR prMetadata) (\<lambda>opened.
                              storeMetadata contentKey (md\<lparr>status := newStatus\<rparr>))
                       else resolve ())
                 | None \<Rightarrow>
                     if newStatus = ''pending_review''
                     then (let branchName = generateBranchName contentKey;
                               msg = (if commitMessage md = [] then DEFAULT_COMMIT_MESSAGE
                                      else commitMessage md)
                           in andThen (createPR this msg branchName) (\<lambda>created.
                                storeMetadata contentKey
                                  (md\<lparr>pr := Some \<lparr>pr_number = number created,
                                                   pr_head = head_sha created\<rparr>,
                                      status := newStatus\<rparr>)))
                     else resolve ())))"

text \<open>
  \<^verbatim>\<open>deleteUnpublishedEntry(collectionName, slug)\<close>. The handler is at the end of the chain: it
  sees a failure of any of the three steps.
\<close>

definition deleteUnpublishedEntry :: "api \<Rightarrow> string \<Rightarrow> string \<Rightarrow> unit promise" where
  "deleteUnpublishedEntry this collectionName slug =
     (let contentKey = generateContentKey this collectionName slug;
          branchName = generateBranchName contentKey
      in catch
           (andThen (retrieveMetadata this contentKey) (\<lambda>md.
            andThen (case pr md of
                       Some prMetadata \<Rightarrow> andThen (closePR prMetadata) (\<lambda>closed. resolve ())
                     | None \<Rightarrow> resolve ()) (\<lambda>nothing.
            deleteBranch branchName)))
           (\<lambda>err.
              if error_message err = Some ''Reference does not exist'' then resolve ()
              else reject err))"

text \<open>
  A call whose promise is not awaited: what it does is done, how it settles is dropped.
\<close>

definition not_awaited :: "'a promise \<Rightarrow> unit promise" where
  "not_awaited p w = (Resolved (), snd (p w))"

text \<open>
  \<^verbatim>\<open>getUpdatedOpenAuthoringMetadata(contentKey, { metadata })\<close>. The value is the metadata, or
  \<^verbatim>\<open>undefined\<close> (\<open>None\<close>) when the pull request has been merged. In that case the entry is to
  be deleted, and collection and slug are taken from the content key.
\<close>

definition getUpdatedOpenAuthoringMetadata ::
  "api \<Rightarrow> string \<Rightarrow> metadata option \<Rightarrow> metadata option promise" where
  "getUpdatedOpenAuthoringMetadata this contentKey metadataArg =
     andThen (case metadataArg of
                Some given \<Rightarrow> resolve given
              | None \<Rightarrow> retrieveMetadata this contentKey) (\<lambda>md.
       case pr md of
         None \<Rightarrow>
           if status md \<noteq> ''draft''
           then andThen (not_awaited (storeMetadata contentKey (md\<lparr>status := ''draft''\<rparr>)))
                  (\<lambda>started. resolve (Some (md\<lparr>status := ''draft''\<rparr>)))
           else resolve (Some md)
       | Some prMetadata \<Rightarrow>
           andThen (getPullRequest (pr_number prMetadata)) (\<lambda>originPRInfo.
             if state originPRInfo = ''closed'' \<and> merged_at originPRInfo \<noteq> None
             then (case getUpdatedOpenAuthoringMetadata_split contentKey of
                     (collectionName, slug) \<Rightarrow>
                       andThen (not_awaited (deleteUnpublishedEntry this
                                  (js_string collectionName) (js_string slug)))
                         (\<lambda>started. resolve None))
             else if state originPRInfo = ''closed'' \<and> merged_at originPRInfo = None
             then (if status md \<noteq> ''draft''
                   then andThen (storeMetadata contentKey (md\<lparr>status := ''draft''\<rparr>))
                          (\<lambda>stored. resolve (Some (md\<lparr>status := ''draft''\<rparr>)))
                   else resolve (Some md))
             else (if status md \<noteq> ''pending_review''
                   then andThen (storeMetadata contentKey (md\<lparr>status := ''pending_review''\<rparr>))
                          (\<lambda>stored. resolve (Some (md\<lparr>status := ''pending_review''\<rparr>)))
                   else resolve (Some md))))"

section \<open>Calls of \<^verbatim>\<open>storeMetadata\<close> in flight\<close>

text \<open>
  The task \<^verbatim>\<open>storeMetadata\<close> hands to \<^verbatim>\<open>take\<close> is an async function. It does not run in one
  piece: at each \<^verbatim>\<open>await\<close> it gives way, and it goes on when the awaited promise has settled.
  Whatever else is due runs in between, a further call of \<^verbatim>\<open>storeMetadata\<close> among it. A task
  in flight is at one of the five \<^verbatim>\<open>await\<close>s of the \<^verbatim>\<open>try\<close> block, with the values it has
  computed so far: at \<^verbatim>\<open>checkMetadataRef()\<close>; at \<^verbatim>\<open>uploadBlob\<close>, with the SHA of the metadata
  branch; at \<^verbatim>\<open>updateTree\<close>, with that SHA and the number of the uploaded blob; at \<^verbatim>\<open>commit\<close>,
  with the change tree; at \<^verbatim>\<open>patchRef\<close>, with the SHA of the new commit.
\<close>

datatype stage =
    AwaitCheckMetadataRef
  | AwaitUploadBlob gitobj
  | AwaitUpdateTree gitobj nat
  | AwaitCommit change_tree
  | AwaitPatchRef gitobj

text \<open>
  The promise a task awaits at its stage settles. What the awaited operation does is taken
  in one step. When it is rejected, so is the task; otherwise the task runs on to its next
  \<^verbatim>\<open>await\<close>, or, after \<^verbatim>\<open>patchRef\<close>, writes the cache and has reached the call of \<^verbatim>\<open>leave()\<close>
  (\<open>None\<close>). These are the statements of \<open>storeMetadata_writes\<close> again, one \<^verbatim>\<open>await\<close> at a time.
\<close>

fun storeMetadata_await :: "string \<Rightarrow> metadata \<Rightarrow> stage \<Rightarrow> stage option promise" where
  "storeMetadata_await key md AwaitCheckMetadataRef =
     andThen checkMetadataRef (\<lambda>branchData. resolve (Some (AwaitUploadBlob branchData)))"
| "storeMetadata_await key md (AwaitUploadBlob branchData) =
     andThen (uploadBlob (Json md)) (\<lambda>b. resolve (Some (AwaitUpdateTree branchData b)))"
| "storeMetadata_await key md (AwaitUpdateTree branchData b) =
     andThen (request (\<lambda>w.
                (updateTree (Some branchData) ''/''
                   [(key @ ''.json'',
                     File \<lparr>file_path = key @ ''.json'', file_sha = b, remove = False, skip = False\<rparr>)],
                 w)))
       (\<lambda>changeTree. resolve (Some (AwaitCommit changeTree)))"
| "storeMetadata_await key md (AwaitCommit changeTree) =
     andThen (commit (''Updating '' @ [CHR 0x22] @ key @ [CHR 0x22] @ '' metadata'') changeTree)
       (\<lambda>response. resolve (Some (AwaitPatchRef (sha response))))"
| "storeMetadata_await key md (AwaitPatchRef newSha) =
     andThen (patchRef ''meta'' META_REF newSha False) (\<lambda>patched w.
       (Resolved None,
        w\<lparr>cache := (cache w)(key \<mapsto> \<lparr>expires = now w + 300000, data = md\<rparr>)\<rparr>))"

fun stage_rank :: "stage \<Rightarrow> nat" where
  "stage_rank AwaitCheckMetadataRef = 0"
| "stage_rank (AwaitUploadBlob branchData) = 1"
| "stage_rank (AwaitUpdateTree branchData b) = 2"
| "stage_rank (AwaitCommit changeTree) = 3"
| "stage_rank (AwaitPatchRef newSha) = 4"

lemma andThen_resolve_Some:
  "andThen p (\<lambda>x. resolve (Some (g x))) w = (Resolved (Some next), w') \<Longrightarrow> \<exists>x. next = g x"
  by (auto simp: andThen_def resolve_def split: prod.splits outcome.splits)

lemma storeMetadata_await_advances:
  assumes "storeMetadata_await key md st w = (Resolved (Some next), w')"
  shows "stage_rank st < stage_rank next \<and> stage_rank next \<le> 4"
proof (cases st)
  case AwaitCheckMetadataRef
  with assms obtain x where "next = AwaitUploadBlob x"
    by (auto dest: andThen_resolve_Some)
  with AwaitCheckMetadataRef show ?thesis by simp
next
  case (AwaitUploadBlob branchData)
  with assms obtain x where "next = AwaitUpdateTree branchData x"
    by (auto dest: andThen_resolve_Some)
  with AwaitUploadBlob show ?thesis by simp
next
  case (AwaitUpdateTree branchData b)
  with assms obtain x where "next = AwaitCommit x"
    by (auto dest: andThen_resolve_Some)
  with AwaitUpdateTree show ?thesis by simp
next
  case (AwaitCommit changeTree)
  with assms obtain x where "next = AwaitPatchRef x"
    by (auto simp: andThen_def resolve_def split: prod.splits outcome.splits)
  with AwaitCommit show ?thesis by simp
next
  case (AwaitPatchRef newSha)
  with assms show ?thesis
    by (auto simp: andThen_def split: prod.splits outcome.splits)
qed

text \<open>A task run in one piece from its stage to the end of the \<^verbatim>\<open>try\<close> block.\<close>

function storeMetadata_resume :: "string \<Rightarrow> metadata \<Rightarrow> stage \<Rightarrow> unit promise" where
  "storeMetadata_resume key md st w =
     (case storeMetadata_await key md st w of
        (Resolved (Some next), w') \<Rightarrow> storeMetadata_resume key md next w'
      | (Resolved None, w') \<Rightarrow> (Resolved (), w')
      | (Rejected err, w') \<Rightarrow> (Rejected err, w')
      | (Pending, w') \<Rightarrow> (Pending, w'))"
  by pat_completeness auto
termination
proof (relation "measure (\<lambda>(key, md, st, w). 4 - stage_rank st)")
  show "wf (measure (\<lambda>(key, md, st, w). 4 - stage_rank st))" by simp
next
  fix key md st w x w' r "next"
  assume "(x, w') = storeMetadata_await key md st w" "x = Resolved r" "r = Some next"
  then have "storeMetadata_await key md st w = (Resolved (Some next), w')" by simp
  from storeMetadata_await_advances[OF this]
  show "((key, md, next, w'), key, md, st, w) \<in> measure (\<lambda>(key, md, st, w). 4 - stage_rank st)"
    by auto
qed

declare storeMetadata_resume.simps [simp del]

text \<open>
  The client between two events: the state, the tasks in flight, and the promises
  \<^verbatim>\<open>storeMetadata\<close> has returned that have settled since, in the order in which they did. A
  task that waits in the queue of the semaphore is not in flight.
\<close>

record task =
  task_key :: string
  task_data :: metadata
  task_at :: stage

record loop =
  loop_world :: world
  in_flight :: "task list"
  settled :: "(string \<times> metadata \<times> unit outcome) list"

text \<open>
  An event is a call \<^verbatim>\<open>storeMetadata(key, data)\<close>, or the promise awaited by the task in
  flight at a position settles. The events come in any order.
\<close>

datatype event = Call string metadata | Settle nat

definition loop_idle :: "world \<Rightarrow> loop" where
  "loop_idle w = \<lparr>loop_world = w, in_flight = [], settled = []\<rparr>"

text \<open>A task that is started runs up to its first \<^verbatim>\<open>await\<close>.\<close>

definition loop_start :: "string \<Rightarrow> metadata \<Rightarrow> loop \<Rightarrow> loop" where
  "loop_start key md L =
     L\<lparr>in_flight := in_flight L
          @ [\<lparr>task_key = key, task_data = md, task_at = AwaitCheckMetadataRef\<rparr>]\<rparr>"

text \<open>
  \<^verbatim>\<open>take(task)\<close> and \<^verbatim>\<open>leave()\<close> of the semaphore, as in \<open>storeMetadata\<close> and \<open>semaphore_leave\<close>,
  but for the task they start: it is put in flight, not run to its end.
\<close>

definition loop_take :: "string \<Rightarrow> metadata \<Rightarrow> loop \<Rightarrow> loop" where
  "loop_take key md L =
     (let w = loop_world L
      in if sem_current w + 1 > 1
         then L\<lparr>loop_world := w\<lparr>sem_queue := sem_queue w @ [(key, md)]\<rparr>\<rparr>
         else loop_start key md (L\<lparr>loop_world := w\<lparr>sem_current := sem_current w + 1\<rparr>\<rparr>))"

definition loop_leave :: "loop \<Rightarrow> loop" where
  "loop_leave L =
     (let w1 = (loop_world L)\<lparr>sem_current := sem_current (loop_world L) - 1\<rparr>
      in case sem_queue w1 of
           [] \<Rightarrow> L\<lparr>loop_world := w1\<rparr>
         | (key, md) # waiting \<Rightarrow>
             if 1 + sem_current w1 > 1 then L\<lparr>loop_world := w1\<rparr>
             else loop_start key md
                    (L\<lparr>loop_world := w1\<lparr>sem_queue := waiting,
                                         sem_current := sem_current w1 + 1\<rparr>\<rparr>))"

text \<open>
  One event. When the promise awaited by a task settles, the task goes on: to its next
  \<^verbatim>\<open>await\<close>; or through \<^verbatim>\<open>leave()\<close> and \<^verbatim>\<open>resolve()\<close> to its end; or, on a rejection, through
  the \<^verbatim>\<open>catch\<close> block, which calls \<^verbatim>\<open>reject(err)\<close> and nothing else. An event for a task that
  is not there, or for a promise that does not settle, changes nothing.
\<close>

fun loop_step :: "event \<Rightarrow> loop \<Rightarrow> loop" where
  "loop_step (Call key md) L = loop_take key md L"
| "loop_step (Settle i) L =
     (if i < length (in_flight L)
      then (let t = in_flight L ! i;
                others = take i (in_flight L) @ drop (Suc i) (in_flight L)
            in case storeMetadata_await (task_key t) (task_data t) (task_at t) (loop_world L) of
                 (Resolved (Some next), w') \<Rightarrow>
                   L\<lparr>loop_world := w', in_flight := (in_flight L)[i := t\<lparr>task_at := next\<rparr>]\<rparr>
               | (Resolved None, w') \<Rightarrow>
                   loop_leave
                     (L\<lparr>loop_world := w', in_flight := others,
                        settled := settled L @ [(task_key t, task_data t, Resolved ())]\<rparr>)
               | (Rejected err, w') \<Rightarrow>
                   L\<lparr>loop_world := w', in_flight := others,
                     settled := settled L @ [(task_key t, task_data t, Rejected err)]\<rparr>
               | (Pending, w') \<Rightarrow> L)
      else L)"

definition loop_run :: "event list \<Rightarrow> loop \<Rightarrow> loop" where
  "loop_run evs L = fold loop_step evs L"

text \<open>The calls among the events, in the order of their arrival.\<close>

fun calls :: "event list \<Rightarrow> (string \<times> metadata) list" where
  "calls [] = []"
| "calls (Call key md # evs) = (key, md) # calls evs"
| "calls (Settle i # evs) = calls evs"

text \<open>
  Two notions for the proofs. A promise ignores the queue of the semaphore when the tasks
  that wait there make no difference to what it does. The state a loop drains to is the
  state reached when the task in flight, if there is one, is run to its end in one piece,
  and with it, through \<^verbatim>\<open>leave()\<close>, the tasks that wait.
\<close>

definition ignores_queue :: "'a promise \<Rightarrow> bool" where
  "ignores_queue p \<longleftrightarrow>
     (\<forall>w q. p (w\<lparr>sem_queue := q\<rparr>) = (fst (p w), (snd (p w))\<lparr>sem_queue := q\<rparr>))"

definition task_finish :: "task \<Rightarrow> world \<Rightarrow> world" where
  "task_finish t w =
     (case storeMetadata_resume (task_key t) (task_data t) (task_at t) w of
        (Resolved finished, w') \<Rightarrow> semaphore_leave w'
      | (Rejected err, w') \<Rightarrow> w'
      | (Pending, w') \<Rightarrow> w')"

definition loop_drain :: "loop \<Rightarrow> world" where
  "loop_drain L =
     (case in_flight L of
        [] \<Rightarrow> loop_world L
      | t # others \<Rightarrow> task_finish t (loop_world L))"
section \<open>Example data\<close>

text \<open>A client in open-authoring mode on the fork \<^verbatim>\<open>owner/repo\<close> of \<^verbatim>\<open>origin/repo\<close>.\<close>

definition example_api :: api where
  "example_api =
     \<lparr>repo = ''owner/repo'', originRepo = ''origin/repo'', branch = ''master'',
      useOpenAuthoring = True, merge_method = ''merge'', initialWorkflowStatus = ''draft''\<rparr>"

text \<open>A remote that answers every request and holds nothing yet.\<close>

definition example_world :: world where
  "example_world =
     \<lparr>faults = [], now = 0, next_id = 100, login = ''editor'', blobs = Map.empty,
      trees_posted = [], remote_commits = [], refs = Map.empty, pulls = Map.empty,
      cache = Map.empty, userPromise = None, sem_current = 0, sem_queue = []\<rparr>"

text \<open>
  A workflow branch with one commit that changed \<^verbatim>\<open>a.md\<close> only (blob 1 became blob 2), and
  a base branch that has moved on since: its tip holds another \<^verbatim>\<open>other.md\<close> (blob 9 instead
  of blob 8).
\<close>

definition example_commit :: gcommit where
  "example_commit =
     \<lparr>sha = Commit 5 (Tree [Entry ''a.md'' ''100644'' ''blob'' (Blob 2),
                           Entry ''other.md'' ''100644'' ''blob'' (Blob 8)]),
      parents = [Commit 4 (Tree [Entry ''a.md'' ''100644'' ''blob'' (Blob 1),
                                 Entry ''other.md'' ''100644'' ''blob'' (Blob 8)])],
      nested = True, message = ''Update a'', author = ''Ann'', committer = ''Ann'',
      tree = Tree [Entry ''a.md'' ''100644'' ''blob'' (Blob 2),
                   Entry ''other.md'' ''100644'' ''blob'' (Blob 8)]\<rparr>"

definition example_base :: gcommit where
  "example_base =
     \<lparr>sha = Commit 7 (Tree [Entry ''a.md'' ''100644'' ''blob'' (Blob 1),
                           Entry ''other.md'' ''100644'' ''blob'' (Blob 9)]),
      parents = [Commit 4 (Tree [Entry ''a.md'' ''100644'' ''blob'' (Blob 1),
                                 Entry ''other.md'' ''100644'' ''blob'' (Blob 8)])],
      nested = True, message = ''Update other'', author = ''Bob'', committer = ''Bob'',
      tree = Tree [Entry ''a.md'' ''100644'' ''blob'' (Blob 1),
                   Entry ''other.md'' ''100644'' ''blob'' (Blob 9)]\<rparr>"

text \<open>The commit the rebase of \<open>example_commit\<close> onto \<open>example_base\<close> creates.\<close>

definition example_replayed :: gcommit where
  "example_replayed =
     \<lparr>sha = Commit 100 (Tree [Entry ''a.md'' ''100644'' ''blob'' (Blob 2),
                             Entry ''other.md'' ''100644'' ''blob'' (Blob 9)]),
      parents = [sha example_base],
      nested = False, message = ''Update a'', author = ''Ann'', committer = ''Ann'',
      tree = Tree [Entry ''a.md'' ''100644'' ''blob'' (Blob 2),
                   Entry ''other.md'' ''100644'' ''blob'' (Blob 9)]\<rparr>"

text \<open>Commits with numbers for SHAs, for \<^verbatim>\<open>assertHead\<close>.\<close>

definition plain_commit :: "nat \<Rightarrow> nat list \<Rightarrow> (nat, unit) git_commit" where
  "plain_commit s ps =
     \<lparr>sha = s, parents = ps, nested = False, message = ''m'', author = ''a'', committer = ''a'',
      tree = ()\<rparr>"

text \<open>A tree with a file at its root and two files in a directory, and a file to remove.\<close>

definition example_tree :: gitobj where
  "example_tree =
     Tree [Entry ''README.md'' ''100644'' ''blob'' (Blob 1),
           Entry ''content'' ''040000'' ''tree''
             (Tree [Entry ''a.md'' ''100644'' ''blob'' (Blob 2),
                    Entry ''b.md'' ''100644'' ''blob'' (Blob 3)])]"

definition example_removed :: file_item where
  "example_removed = \<lparr>file_path = ''content/a.md'', file_sha = 2, remove = True, skip = False\<rparr>"

text \<open>
  A tree that lists a file under a name every plain object inherits, and another file of
  it to remove.
\<close>

definition constructor_tree :: gitobj where
  "constructor_tree =
     Tree [Entry ''README.md'' ''100644'' ''blob'' (Blob 1),
           Entry ''constructor'' ''100644'' ''blob'' (Blob 2)]"

definition readme_removed :: file_item where
  "readme_removed = \<lparr>file_path = ''README.md'', file_sha = 1, remove = True, skip = False\<rparr>"

text \<open>A tree with a file named \<^verbatim>\<open>file\<close> in a directory, to remove.\<close>

definition file_tree :: gitobj where
  "file_tree =
     Tree [Entry ''content'' ''040000'' ''tree''
             (Tree [Entry ''file'' ''100644'' ''blob'' (Blob 1),
                    Entry ''b.md'' ''100644'' ''blob'' (Blob 3)])]"

definition file_removed :: file_item where
  "file_removed = \<lparr>file_path = ''content/file'', file_sha = 1, remove = True, skip = False\<rparr>"

text \<open>
  A client on its own repository, whose base branch \<^verbatim>\<open>master\<close> points at a commit with
  \<open>example_tree\<close>, and a pull request for the entry \<^verbatim>\<open>hello\<close> that the platform will not
  merge.
\<close>

definition plain_api :: api where
  "plain_api =
     \<lparr>repo = ''owner/repo'', originRepo = ''owner/repo'', branch = ''master'',
      useOpenAuthoring = False, merge_method = ''merge'', initialWorkflowStatus = ''draft''\<rparr>"

definition master_tip :: gcommit where
  "master_tip =
     \<lparr>sha = Commit 7 example_tree, parents = [], nested = False, message = ''Initial commit'',
      author = ''Bob'', committer = ''Bob'', tree = example_tree\<rparr>"

definition hello_tip :: gcommit where
  "hello_tip =
     \<lparr>sha = Commit 9 (Tree [Entry ''hello.md'' ''100644'' ''blob'' (Blob 21)]),
      parents = [Commit 7 example_tree], nested = False, message = ''Create hello'',
      author = ''Ann'', committer = ''Ann'',
      tree = Tree [Entry ''hello.md'' ''100644'' ''blob'' (Blob 21)]\<rparr>"

definition hello_pr :: pr_metadata where
  "hello_pr = \<lparr>pr_number = 1, pr_head = sha hello_tip\<rparr>"

definition hello_objects :: md_objects where
  "hello_objects =
     \<lparr>objects_entry = \<lparr>file_path = ''content/hello.md'', file_sha = 21, remove = False, skip = False\<rparr>,
      objects_files = [\<lparr>file_path = ''static/x.png'', file_sha = 22, remove = False, skip = False\<rparr>]\<rparr>"

definition hello_pull :: pull_request where
  "hello_pull =
     \<lparr>number = 1, head_ref = ''cms/hello'', head_sha = sha hello_tip, base_ref = ''master'',
      state = ''open'', merged_at = None, mergeable = False\<rparr>"

definition merge_world :: world where
  "merge_world =
     example_world
       \<lparr>remote_commits := [master_tip, hello_tip],
        refs := [''heads/master'' \<mapsto> sha master_tip, ''heads/cms/hello'' \<mapsto> sha hello_tip],
        pulls := [1 \<mapsto> hello_pull]\<rparr>"

text \<open>
  The metadata of the unpublished entry \<^verbatim>\<open>hello\<close>, which records pull request 1, and states in
  which the client holds it in its cache: under the key \<^verbatim>\<open>hello\<close> for \<open>plain_api\<close>, under
  \<^verbatim>\<open>owner/repo/posts/hello\<close> for \<open>example_api\<close>.
\<close>

definition hello_metadata :: metadata where
  "hello_metadata =
     \<lparr>md_type = ''PR'', pr = Some hello_pr, user = ''editor'', status = ''draft'',
      md_branch = ''cms/hello'', collection = ''posts'', commitMessage = ''Create hello'',
      title = ''Hello'', description = [], objects = hello_objects,
      timeStamp = ''2019-11-01T10:00:00.000Z''\<rparr>"

definition workflow_world :: world where
  "workflow_world =
     merge_world\<lparr>cache := [''hello'' \<mapsto> \<lparr>expires = 300000, data = hello_metadata\<rparr>]\<rparr>"

definition open_authoring_world :: world where
  "open_authoring_world =
     merge_world\<lparr>cache := [''owner/repo/posts/hello''
                               \<mapsto> \<lparr>expires = 300000, data = hello_metadata\<rparr>]\<rparr>"

text \<open>
  A remote whose metadata ref exists, and which will answer the next request and reject
  the one after it.
\<close>

definition meta_root :: gcommit where
  "meta_root =
     \<lparr>sha = Commit 50 (Tree [Entry ''README.md'' ''100644'' ''blob'' (Blob 49)]),
      parents = [], nested = False, message = ''First Commit'', author = ''editor'',
      committer = ''editor'', tree = Tree [Entry ''README.md'' ''100644'' ''blob'' (Blob 49)]\<rparr>"

definition meta_world :: world where
  "meta_world =
     example_world
       \<lparr>faults := [None, Some (502, ''Bad Gateway'')],
        remote_commits := [meta_root],
        refs := [''meta/_netlify_cms'' \<mapsto> sha meta_root]\<rparr>"

text \<open>
  The open-authoring client after the platform has merged pull request 1: the entry
  \<^verbatim>\<open>hello\<close> of the collection \<^verbatim>\<open>posts\<close> still has its branch.
\<close>

definition merged_world :: world where
  "merged_world =
     example_world
       \<lparr>remote_commits := [master_tip, hello_tip],
        refs := [''heads/master'' \<mapsto> sha master_tip,
                 ''heads/cms/owner/repo/posts/hello'' \<mapsto> sha hello_tip],
        pulls := [1 \<mapsto> hello_pull\<lparr>state := ''closed'',
                                       merged_at := Some ''2019-11-02T10:00:00Z''\<rparr>],
        cache := [''owner/repo/posts/hello''
                    \<mapsto> \<lparr>expires = 300000, data = hello_metadata\<rparr>]\<rparr>"

text \<open>
  A remote whose metadata ref exists and which answers every request, and two calls of
  \<^verbatim>\<open>storeMetadata\<close> for the entry \<^verbatim>\<open>hello\<close>, the second made while the task of the first is in
  flight. Each task needs its five awaited promises to settle.
\<close>

definition quiet_meta_world :: world where
  "quiet_meta_world =
     example_world
       \<lparr>remote_commits := [meta_root],
        refs := [''meta/_netlify_cms'' \<mapsto> sha meta_root]\<rparr>"

definition two_calls :: "event list" where
  "two_calls =
     [Call ''hello'' hello_metadata,
      Settle 0,
      Call ''hello'' (hello_metadata\<lparr>status := ''pending_review''\<rparr>),
      Settle 0, Settle 0, Settle 0, Settle 0, Settle 0, Settle 0, Settle 0, Settle 0, Settle 0]"
section \<open>Key and branch scheme: properties\<close>

lemma contentKeyFromRef_generateBranchName:
  "contentKeyFromRef (refName ''heads'' (generateBranchName contentKey)) = contentKey"
  by (simp add: contentKeyFromRef_def refName_def generateBranchName_def CMS_BRANCH_PREFIX_def)

lemma branchNameFromRef_refName:
  "branchNameFromRef (refName ''heads'' branchName) = branchName"
  by (simp add: branchNameFromRef_def refName_def)

lemma js_split_append:
  "c \<notin> set a \<Longrightarrow> js_split c (a @ c # b) = a # js_split c b"
  by (induction a) auto

lemma js_split_no_separator:
  "c \<notin> set s \<Longrightarrow> js_split c s = [s]"
  by (induction s) auto

text \<open>
  Where a repository name, a collection and a slug are each free of \<^verbatim>\<open>/\<close>, the key splits
  into exactly these three.
\<close>

lemma js_split_contentKey:
  assumes "useOpenAuthoring this" and "CHR ''/'' \<notin> set (repo this)"
    and "CHR ''/'' \<notin> set collectionName" and "CHR ''/'' \<notin> set slug"
  shows "js_split CHR ''/'' (generateContentKey this collectionName slug)
           = [repo this, collectionName, slug]"
  using assms
  by (simp add: generateContentKey_def js_split_append js_split_no_separator)

text \<open>
  Claim C1. The round trip through the ref name gives the content key back, but splitting
  the key does not give the triple back for a repository named \<^verbatim>\<open>owner/repo\<close>, the form every
  repository name of the platform has: the key \<^verbatim>\<open>owner/repo/posts/hello\<close> has four pieces.
  \<^verbatim>\<open>getUpdatedOpenAuthoringMetadata\<close> takes the second and third piece for collection and
  slug and reads \<^verbatim>\<open>repo\<close> and \<^verbatim>\<open>posts\<close>, while \<^verbatim>\<open>retrieveMetadata\<close> and
  \<^verbatim>\<open>readUnpublishedBranchFile\<close> take the first two pieces for the repository, so that the
  collection and the slug are the third and fourth. As a result, when the pull request of
  the entry has been merged, \<^verbatim>\<open>getUpdatedOpenAuthoringMetadata\<close> reports the entry as removed
  but deletes nothing: the branch of the entry is still there, whereas
  \<^verbatim>\<open>deleteUnpublishedEntry\<close> called with the collection and the slug removes it.
\<close>

theorem contentKey_split_of_owner_repo:
  "generateContentKey example_api ''posts'' ''hello'' = ''owner/repo/posts/hello''
   \<and> contentKeyFromRef (refName ''heads'' (generateBranchName ''owner/repo/posts/hello''))
       = ''owner/repo/posts/hello''
   \<and> getUpdatedOpenAuthoringMetadata_split ''owner/repo/posts/hello''
       = (Some ''repo'', Some ''posts'')
   \<and> retrieveMetadata_split ''owner/repo/posts/hello'' = (Some ''owner'', Some ''repo'')
   \<and> readUnpublishedBranchFile_repo ''owner/repo/posts/hello'' = ''owner/repo''
   \<and> getUpdatedOpenAuthoringMetadata example_api ''owner/repo/posts/hello'' None merged_world
       = (Resolved None, merged_world)
   \<and> refs merged_world ''heads/cms/owner/repo/posts/hello'' = Some (sha hello_tip)
   \<and> fst (deleteUnpublishedEntry example_api ''posts'' ''hello'' merged_world) = Resolved ()
   \<and> refs (snd (deleteUnpublishedEntry example_api ''posts'' ''hello'' merged_world))
         ''heads/cms/owner/repo/posts/hello'' = None"
proof -
  have split: "generateContentKey example_api ''posts'' ''hello'' = ''owner/repo/posts/hello''
   \<and> contentKeyFromRef (refName ''heads'' (generateBranchName ''owner/repo/posts/hello''))
       = ''owner/repo/posts/hello''
   \<and> getUpdatedOpenAuthoringMetadata_split ''owner/repo/posts/hello''
       = (Some ''repo'', Some ''posts'')
   \<and> retrieveMetadata_split ''owner/repo/posts/hello'' = (Some ''owner'', Some ''repo'')
   \<and> readUnpublishedBranchFile_repo ''owner/repo/posts/hello'' = ''owner/repo''"
    by (simp add: generateContentKey_def example_api_def contentKeyFromRef_def refName_def
        generateBranchName_def CMS_BRANCH_PREFIX_def getUpdatedOpenAuthoringMetadata_split_def
        retrieveMetadata_split_def readUnpublishedBranchFile_repo_def js_nth_def)
  have merged: "getUpdatedOpenAuthoringMetadata example_api ''owner/repo/posts/hello'' None merged_world
       = (Resolved None, merged_world)"
    by (simp add: getUpdatedOpenAuthoringMetadata_def retrieveMetadata_def andThen_def
        merged_world_def example_world_def example_api_def getPullRequest_def request_def
        settle_def hello_metadata_def hello_pr_def hello_pull_def
        getUpdatedOpenAuthoringMetadata_split_def js_nth_def js_string_def not_awaited_def
        deleteUnpublishedEntry_def generateContentKey_def generateBranchName_def catch_def
        contents_request_def retrieveMetadata_split_def refKey_def META_REF_def resolve_def
        reject_def CMS_BRANCH_PREFIX_def Let_def)
  have branch: "refs merged_world ''heads/cms/owner/repo/posts/hello'' = Some (sha hello_tip)"
    by (simp add: merged_world_def)
  have deleted: "fst (deleteUnpublishedEntry example_api ''posts'' ''hello'' merged_world) = Resolved ()
   \<and> refs (snd (deleteUnpublishedEntry example_api ''posts'' ''hello'' merged_world))
         ''heads/cms/owner/repo/posts/hello'' = None"
    by (simp add: retrieveMetadata_def andThen_def merged_world_def example_world_def
        example_api_def request_def settle_def hello_metadata_def hello_pr_def hello_pull_def
        deleteUnpublishedEntry_def generateContentKey_def closePR_def patchPR_def
        generateBranchName_def catch_def deleteBranch_def deleteRef_def refKey_def resolve_def
        reject_def CMS_BRANCH_PREFIX_def Let_def)
  from split merged branch deleted show ?thesis by blast
qed

section \<open>The drift assertion\<close>

lemma assertHead_TypeError:
  "commits = [] \<or> parents headToAssert = [] \<Longrightarrow> assertHead commits headToAssert = Inl TypeError"
  by (auto simp: assertHead_def js_nth_def js_last_def split: option.splits)

text \<open>
  Claim C4. The head handed to \<^verbatim>\<open>assertHead\<close> is a commit made on top of the branch: it
  lists a parent, and its first parent is another commit than itself. For every such head
  \<^verbatim>\<open>assertHead\<close> returns the list unchanged when the SHA of the head is the SHA of the last
  commit, returns the list with the head appended when the SHA of the head's first parent
  is the SHA of the last commit, and throws in every other case: the drift error when
  neither holds, a \<^verbatim>\<open>TypeError\<close> when the list has no last commit.
\<close>

theorem assertHead_cases:
  assumes "parents headToAssert \<noteq> []" and "hd (parents headToAssert) \<noteq> sha headToAssert"
  shows "(commits \<noteq> [] \<and> sha headToAssert = sha (last commits)
            \<longrightarrow> assertHead commits headToAssert = Inr commits)
       \<and> (commits \<noteq> [] \<and> hd (parents headToAssert) = sha (last commits)
            \<longrightarrow> assertHead commits headToAssert = Inr (commits @ [headToAssert]))
       \<and> (commits \<noteq> [] \<and> sha headToAssert \<noteq> sha (last commits)
              \<and> hd (parents headToAssert) \<noteq> sha (last commits)
            \<longrightarrow> assertHead commits headToAssert
                  = Inl (Error ''Editorial workflow branch changed unexpectedly.''))
       \<and> (commits = [] \<longrightarrow> assertHead commits headToAssert = Inl TypeError)"
  using assms
  by (cases "parents headToAssert") (auto simp: assertHead_def js_nth_def js_last_def)

text \<open>
  One input for each case: the head is the last commit, the head is a child of the last
  commit, the head is neither, and the list is empty.
\<close>

theorem assertHead_cases_witness:
  "assertHead [plain_commit 1 [0]] (plain_commit 1 [0]) = Inr [plain_commit 1 [0]]
   \<and> assertHead [plain_commit 1 [0]] (plain_commit 2 [1]) = Inr [plain_commit 1 [0], plain_commit 2 [1]]
   \<and> assertHead [plain_commit 1 [0]] (plain_commit 3 [2])
       = Inl (Error ''Editorial workflow branch changed unexpectedly.'')
   \<and> assertHead [] (plain_commit 1 [0]) = Inl TypeError"
proof -
  have p1: "parents (plain_commit 1 [0]) \<noteq> []" "hd (parents (plain_commit 1 [0])) \<noteq> sha (plain_commit 1 [0])"
    by (simp_all add: plain_commit_def)
  have p2: "parents (plain_commit 2 [1]) \<noteq> []" "hd (parents (plain_commit 2 [1])) \<noteq> sha (plain_commit 2 [1])"
    by (simp_all add: plain_commit_def)
  have p3: "parents (plain_commit 3 [2]) \<noteq> []" "hd (parents (plain_commit 3 [2])) \<noteq> sha (plain_commit 3 [2])"
    by (simp_all add: plain_commit_def)
  show ?thesis
    using assertHead_cases[OF p1, of "[plain_commit 1 [0]]"]
      assertHead_cases[OF p2, of "[plain_commit 1 [0]]"]
      assertHead_cases[OF p3, of "[plain_commit 1 [0]]"]
      assertHead_cases[OF p1, of "[]"]
    by (simp add: plain_commit_def)
qed

section \<open>The rebase engine\<close>

text \<open>
  Claim C5. With an empty list, or with a first commit whose first recorded parent is the
  base commit, \<^verbatim>\<open>rebaseSingleBlobCommits\<close> resolves with the last commit of the list as it
  is (\<^verbatim>\<open>undefined\<close> for the empty list) and leaves the state as it was: no request is sent,
  so no tree and no commit is created.
\<close>

theorem rebaseSingleBlobCommits_no_rebase:
  assumes "commits = []
         \<or> (commits \<noteq> [] \<and> parents (hd commits) \<noteq> []
             \<and> hd (parents (hd commits)) = sha baseCommit)"
  shows "rebaseSingleBlobCommits baseCommit commits pathToBlob w
           = (Resolved (if commits = [] then None else Some (last commits)), w)"
  using assms
  by (cases commits; cases "parents (hd commits)")
     (auto simp: rebaseSingleBlobCommits_def js_nth_def js_last_def resolve_def)

text \<open>
  The empty list, and a commit that already sits on its base: \<open>example_commit\<close> is a child of
  commit 4.
\<close>

theorem rebaseSingleBlobCommits_no_rebase_witness:
  "rebaseSingleBlobCommits example_base [] ''a.md'' example_world = (Resolved None, example_world)
   \<and> hd (parents (hd [example_commit])) = sha (example_base\<lparr>sha := hd (parents example_commit)\<rparr>)
   \<and> rebaseSingleBlobCommits (example_base\<lparr>sha := hd (parents example_commit)\<rparr>) [example_commit]
        ''a.md'' example_world
       = (Resolved (Some example_commit), example_world)"
proof -
  have h: "[example_commit] = []
         \<or> ([example_commit] \<noteq> [] \<and> parents (hd [example_commit]) \<noteq> []
             \<and> hd (parents (hd [example_commit]))
                 = sha (example_base\<lparr>sha := hd (parents example_commit)\<rparr>))"
    by (simp add: example_commit_def)
  show ?thesis
    using rebaseSingleBlobCommits_no_rebase[of "[]" example_base "''a.md''" example_world]
      rebaseSingleBlobCommits_no_rebase[OF h, of "''a.md''" example_world]
    by simp
qed

subsection \<open>Entries and paths\<close>

lemma find_map_replace:
  "find (\<lambda>e. entry_path e = q) (map (\<lambda>e. if entry_path e = entry_path new then new else e) es)
     = (if q = entry_path new then (if \<exists>e\<in>set es. entry_path e = q then Some new else None)
        else find (\<lambda>e. entry_path e = q) es)"
  by (induction es) auto

lemma find_append_one:
  "find (\<lambda>e. entry_path e = q) (es @ [new]) =
     (case find (\<lambda>e. entry_path e = q) es of Some e \<Rightarrow> Some e
      | None \<Rightarrow> if q = entry_path new then Some new else None)"
  by (induction es) auto

lemma find_replace_entry:
  "find (\<lambda>e. entry_path e = q) (replace_entry new es) =
     (if q = entry_path new then Some new else find (\<lambda>e. entry_path e = q) es)"
proof (cases "\<exists>e\<in>set es. entry_path e = entry_path new")
  case True
  then show ?thesis
    by (simp add: replace_entry_def find_map_replace)
next
  case False
  then have "find (\<lambda>e. entry_path e = entry_path new) es = None"
    by (simp add: find_None_iff)
  with False show ?thesis
    by (auto simp: replace_entry_def find_append_one split: option.splits)
qed

lemma find_filter_neq:
  "find (\<lambda>e. entry_path e = q) (filter (\<lambda>e. entry_path e \<noteq> name) es) =
     (if q = name then None else find (\<lambda>e. entry_path e = q) es)"
  by (induction es) auto

lemma subtree_of_find:
  "find (\<lambda>e. entry_path e = name) es = Some e \<Longrightarrow> getTree (Some (entry_sha e)) = Inr sub
    \<Longrightarrow> subtree_of name es = sub"
  by (simp add: subtree_of_def)

lemma lookup_path_Cons:
  "rest \<noteq> [] \<Longrightarrow> lookup_path es (name # rest) =
     (case find (\<lambda>e. entry_path e = name) es of
        None \<Rightarrow> None
      | Some e \<Rightarrow> (case getTree (Some (entry_sha e)) of Inl err \<Rightarrow> None | Inr sub \<Rightarrow> lookup_path sub rest))"
  by (cases rest) auto

lemma lookup_path_subtree_of:
  "rest \<noteq> [] \<Longrightarrow> lookup_path es (name # rest) =
     (if find (\<lambda>e. entry_path e = name) es = None then None else
      case getTree (Some (entry_sha (the (find (\<lambda>e. entry_path e = name) es)))) of Inl err \<Rightarrow> None | Inr sub \<Rightarrow> lookup_path sub rest)"
  by (cases rest) (auto split: option.splits)

lemma lookup_path_Nil_tree [simp]: "lookup_path [] q = None"
  by (induction "[] :: tree_entry list" q rule: lookup_path.induct) auto

lemma put_entry_frame:
  "outside q p \<Longrightarrow> lookup_path (put_entry p v es) q = lookup_path es q"
proof (induction p v es arbitrary: q rule: put_entry.induct)
  case (1 v es)
  then show ?case by (simp add: outside_def)
next
  case (2 name v es)
  then obtain q0 qs where q: "q = q0 # qs" "q0 \<noteq> name"
    by (cases q) (auto simp: outside_def)
  then show ?case
    by (cases qs) (auto simp: find_filter_neq find_replace_entry split: option.splits)
next
  case (3 name r rs v es)
  from 3(2) obtain q0 qs where q: "q = q0 # qs" "q0 \<noteq> name \<or> (q0 = name \<and> outside qs (r # rs))"
    by (cases q) (auto simp: outside_def)
  show ?case
  proof (cases "q0 = name")
    case False
    then show ?thesis using q by (cases qs) (auto simp: find_replace_entry)
  next
    case True
    with q have out: "outside qs (r # rs)" by simp
    then have qs: "qs \<noteq> []" by (auto simp: outside_def)
    have ih: "lookup_path (put_entry (r # rs) v (subtree_of name es)) qs = lookup_path (subtree_of name es) qs"
      using 3(1)[OF out] .
    have "lookup_path es (name # qs) = lookup_path (subtree_of name es) qs"
      using qs by (auto simp: lookup_path_Cons subtree_of_def split: option.splits sum.splits)
    then show ?thesis using q True qs ih
      by (simp add: lookup_path_Cons find_replace_entry)
  qed
qed

lemma put_entry_hit:
  "p \<noteq> [] \<Longrightarrow> lookup_path (put_entry p (Some (m, t, s)) es) p = Some (Entry (last p) m t s)"
proof (induction p "Some (m, t, s)" es rule: put_entry.induct)
  case (1 es)
  then show ?case by simp
next
  case (2 name es)
  then show ?case by (simp add: find_replace_entry)
next
  case (3 name r rs es)
  then show ?case by (simp add: find_replace_entry)
qed

lemma walk_lookup:
  "lookup_path es (dirs @ [f]) = Some e \<Longrightarrow>
     \<exists>sub. getBlobInTree_walk es dirs = Inr sub \<and> find (\<lambda>e. entry_path e = f) sub = Some e"
proof (induction dirs arbitrary: es)
  case Nil
  then show ?case by simp
next
  case (Cons d dirs)
  then show ?case
    by (auto simp: lookup_path_Cons split: option.splits sum.splits)
qed

lemma getBlobInTree_tree_at:
  assumes "tree_at t (pathSegments P) = Some e"
  shows "getBlobInTree t P = Inr (Some e)"
proof -
  from assms obtain es where es: "getTree (Some t) = Inr es" "lookup_path es (pathSegments P) = Some e"
    by (auto simp: tree_at_def split: sum.splits)
  then have ne: "pathSegments P \<noteq> []" by auto
  then have sp: "pathSegments P = butlast (pathSegments P) @ [last (pathSegments P)]" by simp
  from walk_lookup[of es "butlast (pathSegments P)" "last (pathSegments P)" e] es sp
  obtain sub where "getBlobInTree_walk es (butlast (pathSegments P)) = Inr sub"
     "find (\<lambda>e. entry_path e = last (pathSegments P)) sub = Some e" by auto
  then show ?thesis using es ne
    by (simp add: getBlobInTree_def js_last_def Let_def)
qed


lemma request_no_faults: "faults w = [] \<Longrightarrow> request respond w = settle (respond w)"
  by (simp add: request_def)

lemma pathSegments_clean: "[] \<notin> set (js_split CHR ''/'' P) \<Longrightarrow> pathSegments P = js_split CHR ''/'' P"
  unfolding pathSegments_def by (rule filter_True) auto

lemma js_split_nonempty: "js_split c s \<noteq> []"
  by (induction s) (auto split: list.splits)

lemma lookup_path_last: "lookup_path es p = Some e \<Longrightarrow> entry_path e = last p"
proof (induction es p rule: lookup_path.induct)
  case (1 es)
  then show ?case by simp
next
  case (2 es name)
  then show ?case by (auto simp: find_Some_iff)
next
  case (3 es name v va)
  then show ?case by (auto split: option.splits sum.splits)
qed

lemma rebaseSingleBlobCommit_step:
  assumes "faults w = []" and "[] \<notin> set (js_split CHR ''/'' P)"
    and "tree_at (tree c) (pathSegments P) = Some e"
    and "getTree (Some (tree b)) = Inr es"
  shows "rebaseSingleBlobCommit b c P w =
     (Resolved \<lparr>sha = Commit (next_id w) (replay_tree es P e), parents = [sha b], nested = False,
        message = message c, author = author c, committer = committer c,
        tree = replay_tree es P e\<rparr>,
      w\<lparr>trees_posted := trees_posted w @ [replay_tree es P e],
        next_id := Suc (next_id w),
        remote_commits := remote_commits w @
          [\<lparr>sha = Commit (next_id w) (replay_tree es P e), parents = [sha b], nested = False,
            message = message c, author = author c, committer = committer c,
            tree = replay_tree es P e\<rparr>]\<rparr>)"
  using assms
  by (simp add: rebaseSingleBlobCommit_def andThen_def request_no_faults settle_def
      getBlobInTree_tree_at createTree_def createCommit_def replay_tree_def Let_def)

lemma replay_tree_at_P:
  assumes "[] \<notin> set (js_split CHR ''/'' P)" and "tree_at t (pathSegments P) = Some e"
  shows "tree_at (replay_tree es P e) (pathSegments P) = Some e"
proof -
  from assms(2) have "entry_path e = last (pathSegments P)"
    by (auto simp: tree_at_def split: sum.splits dest: lookup_path_last)
  then have "Entry (last (js_split CHR ''/'' P)) (entry_mode e) (entry_type e) (entry_sha e) = e"
    using assms(1) by (cases e) (simp add: pathSegments_clean)
  moreover have "lookup_path (put_entry (js_split CHR ''/'' P) (Some (entry_mode e, entry_type e, entry_sha e)) es)
       (js_split CHR ''/'' P) = Some (Entry (last (js_split CHR ''/'' P)) (entry_mode e) (entry_type e) (entry_sha e))"
    by (rule put_entry_hit[OF js_split_nonempty])
  ultimately show ?thesis
    using assms(1) by (simp add: tree_at_def replay_tree_def pathSegments_clean)
qed

lemma replay_tree_outside:
  assumes "[] \<notin> set (js_split CHR ''/'' P)" and "outside q (pathSegments P)"
  shows "tree_at (replay_tree es P e) q = lookup_path es q"
  using assms by (simp add: tree_at_def replay_tree_def pathSegments_clean put_entry_frame)

lemma reduce_replays:
  assumes "faults w = []" and "[] \<notin> set (js_split CHR ''/'' P)"
    and "\<forall>c \<in> set cs. tree_at (tree c) (pathSegments P) \<noteq> None"
    and "getTree (Some (tree b)) = Inr es"
  shows "\<exists>news w'. rebaseSingleBlobCommits_reduce b cs P w = (Resolved (last (b # news)), w')
      \<and> faults w' = []
      \<and> remote_commits w' = remote_commits w @ news \<and> length news = length cs
      \<and> (\<forall>i < length cs.
           sha (news ! i) = Commit (next_id w + i) (tree (news ! i))
         \<and> parents (news ! i) = [sha ((b # news) ! i)]
         \<and> message (news ! i) = message (cs ! i)
         \<and> author (news ! i) = author (cs ! i)
         \<and> committer (news ! i) = committer (cs ! i)
         \<and> tree_at (tree (news ! i)) (pathSegments P) = tree_at (tree (cs ! i)) (pathSegments P)
         \<and> (\<forall>q. outside q (pathSegments P) \<longrightarrow> tree_at (tree (news ! i)) q = tree_at (tree b) q))"
  using assms
proof (induction cs arbitrary: b w es)
  case Nil
  then show ?case by simp
next
  case (Cons c cs)
  from Cons.prems(3) obtain e where e: "tree_at (tree c) (pathSegments P) = Some e" by auto
  define t1 where "t1 = replay_tree es P e"
  define n1 :: gcommit where "n1 = \<lparr>sha = Commit (next_id w) t1, parents = [sha b], nested = False,
        message = message c, author = author c, committer = committer c, tree = t1\<rparr>"
  define w1 where "w1 = w\<lparr>trees_posted := trees_posted w @ [t1], next_id := Suc (next_id w),
        remote_commits := remote_commits w @ [n1]\<rparr>"
  have step: "rebaseSingleBlobCommit (normalizeCommit b) (normalizeCommit c) P w = (Resolved n1, w1)"
    using rebaseSingleBlobCommit_step[of w P "normalizeCommit c" e "normalizeCommit b" es]
      Cons.prems(1,2,4) e
    by (simp add: normalizeCommit_def n1_def w1_def t1_def)
  have w1: "faults w1 = []" using Cons.prems(1) by (simp add: w1_def)
  have t1: "getTree (Some (tree n1)) = Inr (put_entry (js_split CHR ''/'' P) (Some (entry_mode e, entry_type e, entry_sha e)) es)"
    by (simp add: n1_def t1_def replay_tree_def)
  from Cons.prems(3) have rest: "\<forall>c \<in> set cs. tree_at (tree c) (pathSegments P) \<noteq> None" by simp
  from Cons.IH[OF w1 Cons.prems(2) rest t1]
  obtain news w' where ih: "rebaseSingleBlobCommits_reduce n1 cs P w1 = (Resolved (last (n1 # news)), w')"
      "faults w' = []" "remote_commits w' = remote_commits w1 @ news" "length news = length cs"
      "\<forall>i < length cs.
           sha (news ! i) = Commit (next_id w1 + i) (tree (news ! i))
         \<and> parents (news ! i) = [sha ((n1 # news) ! i)]
         \<and> message (news ! i) = message (cs ! i)
         \<and> author (news ! i) = author (cs ! i)
         \<and> committer (news ! i) = committer (cs ! i)
         \<and> tree_at (tree (news ! i)) (pathSegments P) = tree_at (tree (cs ! i)) (pathSegments P)
         \<and> (\<forall>q. outside q (pathSegments P) \<longrightarrow> tree_at (tree (news ! i)) q = tree_at (tree n1) q)"
    by blast
  have n1P: "tree_at (tree n1) (pathSegments P) = tree_at (tree c) (pathSegments P)"
    using replay_tree_at_P[OF Cons.prems(2) e] e by (simp add: n1_def t1_def)
  have n1out: "\<And>q. outside q (pathSegments P) \<Longrightarrow> tree_at (tree n1) q = tree_at (tree b) q"
    using replay_tree_outside[OF Cons.prems(2)] Cons.prems(4) by (simp add: n1_def t1_def tree_at_def)
  have all: "\<forall>i < length (c # cs).
           sha ((n1 # news) ! i) = Commit (next_id w + i) (tree ((n1 # news) ! i))
         \<and> parents ((n1 # news) ! i) = [sha ((b # n1 # news) ! i)]
         \<and> message ((n1 # news) ! i) = message ((c # cs) ! i)
         \<and> author ((n1 # news) ! i) = author ((c # cs) ! i)
         \<and> committer ((n1 # news) ! i) = committer ((c # cs) ! i)
         \<and> tree_at (tree ((n1 # news) ! i)) (pathSegments P) = tree_at (tree ((c # cs) ! i)) (pathSegments P)
         \<and> (\<forall>q. outside q (pathSegments P) \<longrightarrow> tree_at (tree ((n1 # news) ! i)) q = tree_at (tree b) q)"
  proof (intro allI impI)
    fix i assume i: "i < length (c # cs)"
    show "sha ((n1 # news) ! i) = Commit (next_id w + i) (tree ((n1 # news) ! i))
         \<and> parents ((n1 # news) ! i) = [sha ((b # n1 # news) ! i)]
         \<and> message ((n1 # news) ! i) = message ((c # cs) ! i)
         \<and> author ((n1 # news) ! i) = author ((c # cs) ! i)
         \<and> committer ((n1 # news) ! i) = committer ((c # cs) ! i)
         \<and> tree_at (tree ((n1 # news) ! i)) (pathSegments P) = tree_at (tree ((c # cs) ! i)) (pathSegments P)
         \<and> (\<forall>q. outside q (pathSegments P) \<longrightarrow> tree_at (tree ((n1 # news) ! i)) q = tree_at (tree b) q)"
    proof (cases i)
      case 0
      then show ?thesis using n1P n1out by (simp add: n1_def)
    next
      case (Suc j)
      with i have j: "j < length cs" by simp
      from ih(5) j have
        "sha (news ! j) = Commit (next_id w1 + j) (tree (news ! j))
         \<and> parents (news ! j) = [sha ((n1 # news) ! j)]
         \<and> message (news ! j) = message (cs ! j)
         \<and> author (news ! j) = author (cs ! j)
         \<and> committer (news ! j) = committer (cs ! j)
         \<and> tree_at (tree (news ! j)) (pathSegments P) = tree_at (tree (cs ! j)) (pathSegments P)
         \<and> (\<forall>q. outside q (pathSegments P) \<longrightarrow> tree_at (tree (news ! j)) q = tree_at (tree n1) q)"
        by blast
      then show ?thesis using Suc n1out by (simp add: w1_def)
    qed
  qed
  have "rebaseSingleBlobCommits_reduce b (c # cs) P w = (Resolved (last (b # n1 # news)), w')"
    using step ih(1) by simp
  moreover have "remote_commits w' = remote_commits w @ (n1 # news)"
    using ih(3) by (simp add: w1_def)
  moreover have "length (n1 # news) = length (c # cs)" using ih(4) by simp
  ultimately show ?case using ih(2) all by blast
qed


text \<open>
  Claim C3, as stated, fails: the tree of a replayed commit is not the tree of the original
  commit outside the path. The original commit changed \<^verbatim>\<open>a.md\<close> only; replayed on a base
  whose \<^verbatim>\<open>other.md\<close> differs, it carries the \<^verbatim>\<open>other.md\<close> of the base.
\<close>

theorem rebase_tree_outside_path_counterexample:
  "fst (rebaseSingleBlobCommits example_base [example_commit] ''a.md'' example_world)
     = Resolved (Some example_replayed)
   \<and> outside [''other.md''] (pathSegments ''a.md'')
   \<and> tree_at (tree example_replayed) [''other.md''] \<noteq> tree_at (tree example_commit) [''other.md'']"
  by (simp add: rebaseSingleBlobCommits_def rebaseSingleBlobCommit_def
      rebaseSingleBlobCommits_reduce.simps example_base_def example_commit_def example_world_def
      example_replayed_def js_nth_def andThen_def resolve_def request_def settle_def
      getBlobInTree_def pathSegments_def js_last_def createTree_def createCommit_def
      normalizeCommit_def replace_entry_def outside_def tree_at_def Let_def)

text \<open>
  Claim C3, amended. When a rebase is needed (the list is not empty and the first recorded
  parent of its first commit is not the base), every request is answered, the path has no
  empty segment, and each of the \<open>N\<close> commits holds an entry at the path, then
  \<^verbatim>\<open>rebaseSingleBlobCommits\<close> creates \<open>N\<close> new commits and resolves with the last. Each has
  exactly one parent (the replayed commit before it, the base for the first), the message,
  author and committer of the original at its position, the original's entry at the path,
  and outside the path the tree of the base commit.
\<close>

theorem rebaseSingleBlobCommits_replays:
  assumes "faults w = []"
    and "commits \<noteq> []" and "parents (hd commits) \<noteq> []"
    and "hd (parents (hd commits)) \<noteq> sha baseCommit"
    and "[] \<notin> set (js_split CHR ''/'' P)"
    and "\<exists>es. getTree (Some (tree baseCommit)) = Inr es"
    and "\<forall>c \<in> set commits. tree_at (tree c) (pathSegments P) \<noteq> None"
  shows "\<exists>news w'. rebaseSingleBlobCommits baseCommit commits P w = (Resolved (Some (last news)), w')
      \<and> remote_commits w' = remote_commits w @ news \<and> length news = length commits
      \<and> (\<forall>i < length commits.
           sha (news ! i) = Commit (next_id w + i) (tree (news ! i))
         \<and> parents (news ! i) = [sha ((baseCommit # news) ! i)]
         \<and> message (news ! i) = message (commits ! i)
         \<and> author (news ! i) = author (commits ! i)
         \<and> committer (news ! i) = committer (commits ! i)
         \<and> tree_at (tree (news ! i)) (pathSegments P) = tree_at (tree (commits ! i)) (pathSegments P)
         \<and> (\<forall>q. outside q (pathSegments P) \<longrightarrow> tree_at (tree (news ! i)) q = tree_at (tree baseCommit) q))"
proof -
  from assms(6) obtain es where es: "getTree (Some (tree baseCommit)) = Inr es" by blast
  from reduce_replays[OF assms(1) assms(5) assms(7) es]
  obtain news w' where r: "rebaseSingleBlobCommits_reduce baseCommit commits P w = (Resolved (last (baseCommit # news)), w')"
      "remote_commits w' = remote_commits w @ news" "length news = length commits"
      "\<forall>i < length commits.
           sha (news ! i) = Commit (next_id w + i) (tree (news ! i))
         \<and> parents (news ! i) = [sha ((baseCommit # news) ! i)]
         \<and> message (news ! i) = message (commits ! i)
         \<and> author (news ! i) = author (commits ! i)
         \<and> committer (news ! i) = committer (commits ! i)
         \<and> tree_at (tree (news ! i)) (pathSegments P) = tree_at (tree (commits ! i)) (pathSegments P)
         \<and> (\<forall>q. outside q (pathSegments P) \<longrightarrow> tree_at (tree (news ! i)) q = tree_at (tree baseCommit) q)"
    by blast
  from r(3) assms(2) have ne: "news \<noteq> []" by auto
  have "rebaseSingleBlobCommits baseCommit commits P w = (Resolved (Some (last news)), w')"
    using assms(2,3,4) r(1) ne
    by (cases commits; cases "parents (hd commits)")
       (simp_all add: rebaseSingleBlobCommits_def js_nth_def andThen_def resolve_def)
  with r(2,3,4) show ?thesis by blast
qed


text \<open>The example above meets the hypotheses; its one new commit is \<open>example_replayed\<close>.\<close>

theorem rebaseSingleBlobCommits_replays_witness:
  "faults example_world = []
   \<and> hd (parents (hd [example_commit])) \<noteq> sha example_base
   \<and> [] \<notin> set (js_split CHR ''/'' ''a.md'')
   \<and> tree_at (tree example_commit) (pathSegments ''a.md'') \<noteq> None
   \<and> (\<exists>news w'. rebaseSingleBlobCommits example_base [example_commit] ''a.md'' example_world
                    = (Resolved (Some (last news)), w')
         \<and> length news = 1
         \<and> parents (news ! 0) = [sha example_base]
         \<and> message (news ! 0) = ''Update a''
         \<and> tree_at (tree (news ! 0)) [''other.md''] = tree_at (tree example_base) [''other.md''])"
proof -
  have h1: "faults example_world = []" by (simp add: example_world_def)
  have h2: "[example_commit] \<noteq> []" by simp
  have h3: "parents (hd [example_commit]) \<noteq> []" by (simp add: example_commit_def)
  have h4: "hd (parents (hd [example_commit])) \<noteq> sha example_base"
    by (simp add: example_commit_def example_base_def)
  have h5: "[] \<notin> set (js_split CHR ''/'' ''a.md'')" by simp
  have h6: "\<exists>es. getTree (Some (tree example_base)) = Inr es" by (simp add: example_base_def)
  have h7: "\<forall>c \<in> set [example_commit]. tree_at (tree c) (pathSegments ''a.md'') \<noteq> None"
    by (simp add: example_commit_def tree_at_def pathSegments_def)
  have out: "outside [''other.md''] (pathSegments ''a.md'')"
    by (simp add: outside_def pathSegments_def)
  from rebaseSingleBlobCommits_replays[OF h1 h2 h3 h4 h5 h6 h7]
  obtain news w' where r:
    "rebaseSingleBlobCommits example_base [example_commit] ''a.md'' example_world
       = (Resolved (Some (last news)), w')"
    "length news = length [example_commit]"
    "\<forall>i < length [example_commit].
           sha (news ! i) = Commit (next_id example_world + i) (tree (news ! i))
         \<and> parents (news ! i) = [sha ((example_base # news) ! i)]
         \<and> message (news ! i) = message ([example_commit] ! i)
         \<and> author (news ! i) = author ([example_commit] ! i)
         \<and> committer (news ! i) = committer ([example_commit] ! i)
         \<and> tree_at (tree (news ! i)) (pathSegments ''a.md'')
             = tree_at (tree ([example_commit] ! i)) (pathSegments ''a.md'')
         \<and> (\<forall>q. outside q (pathSegments ''a.md'')
                \<longrightarrow> tree_at (tree (news ! i)) q = tree_at (tree example_base) q)"
    by blast
  from r(3) out have
    "parents (news ! 0) = [sha example_base] \<and> message (news ! 0) = ''Update a''
     \<and> tree_at (tree (news ! 0)) [''other.md''] = tree_at (tree example_base) [''other.md'']"
    by (simp add: example_commit_def)
  with r(1,2) h1 h4 h5 h7 show ?thesis by auto
qed

section \<open>Tree updates\<close>

lemma wf_getTree: "wf_obj t \<Longrightarrow> getTree (Some t) = Inr es \<Longrightarrow> wf_obj (Tree es)"
  by (cases "Some t" rule: getTree.cases) auto

lemma wf_find:
  "wf_obj (Tree es) \<Longrightarrow> find (\<lambda>e. entry_path e = name) es = Some obj
    \<Longrightarrow> wf_entry obj \<and> entry_path obj = name"
  by (auto simp: find_Some_iff list_all_iff)

lemma wf_entry_parts:
  "wf_entry obj \<Longrightarrow> entry_path obj \<noteq> [] \<and> CHR ''/'' \<notin> set (entry_path obj) \<and> wf_obj (entry_sha obj)"
  by (cases obj) simp

lemma find_in_set: "find P xs = Some x \<Longrightarrow> x \<in> set xs \<and> P x"
  by (induction xs) (auto split: if_splits)

text \<open>
  A file tree with one property, looked up with the names of a listing in which no other
  name is inherited: only the entry of that name is met.
\<close>

lemma js_get_single:
  "js_get [(name, node)] n =
     (if n = name then Own node else if n \<in> set Object_prototype then Inherited else Absent)"
  by (simp add: js_get_def)

lemma existing_none:
  assumes "\<forall>x \<in> set es. entry_path x \<noteq> name \<and> entry_path x \<notin> set Object_prototype"
    and "\<And>x. H x Absent = []"
  shows "concat (map (\<lambda>x. H x (js_get [(name, node)] (entry_path x))) es) = []"
  using assms by (induction es) (auto simp: js_get_single)

lemma existing_single:
  assumes "distinct (map entry_path es)" and "find (\<lambda>e. entry_path e = name) es = Some obj"
    and "\<forall>x \<in> set es. entry_path x \<noteq> name \<longrightarrow> entry_path x \<notin> set Object_prototype"
    and "\<And>x. H x Absent = []"
  shows "concat (map (\<lambda>x. H x (js_get [(name, node)] (entry_path x))) es) = H obj (Own node)"
  using assms
proof (induction es)
  case Nil
  then show ?case by simp
next
  case (Cons a es)
  show ?case
  proof (cases "entry_path a = name")
    case True
    with Cons.prems have a: "a = obj" by simp
    from True Cons.prems(1) have "\<forall>x \<in> set es. entry_path x \<noteq> name"
      by (metis distinct.simps(2) imageI list.simps(9) set_map)
    with Cons.prems(3) have "\<forall>x \<in> set es. entry_path x \<noteq> name \<and> entry_path x \<notin> set Object_prototype"
      by simp
    from existing_none[OF this, of H node] Cons.prems(4) True a show ?thesis
      by (simp add: js_get_single)
  next
    case False
    with Cons show ?thesis by (simp add: js_get_single)
  qed
qed

lemma added_single:
  assumes "find (\<lambda>e. entry_path e = name) es = Some obj"
  shows "name \<in> set (map entry_path (filter (\<lambda>x. js_get [(name, node)] (entry_path x) \<noteq> Absent) es))"
proof -
  from find_in_set[OF assms] have "obj \<in> set es" "entry_path obj = name" by auto
  then show ?thesis by (auto simp: image_iff js_get_single intro!: bexI[of _ obj])
qed

lemma for_in_single: "for_in [(name, v)] = [(name, v)]"
  by (simp add: for_in_def)

lemma updateTree_file_remove:
  assumes "wf_obj (Tree es)" and "getTree sha0 = Inr es"
    and "find (\<lambda>e. entry_path e = name) es = Some obj" and "remove f"
    and "\<forall>x \<in> set es. entry_path x \<noteq> name \<longrightarrow> entry_path x \<notin> set Object_prototype"
  shows "updateTree sha0 p0 [(name, File f)] =
     Inr \<lparr>ct_path = p0, ct_mode = ''040000'', ct_type = ''tree'',
          ct_sha = Tree (filter (\<lambda>e. entry_path e \<noteq> name) es), parentSha = sha0\<rparr>"
proof -
  from wf_find[OF assms(1,3)] have obj: "wf_entry obj" "entry_path obj = name" by auto
  with wf_entry_parts[of obj] have name: "name \<noteq> []" "CHR ''/'' \<notin> set name" by auto
  from assms(1) have d: "distinct (map entry_path es)" by simp
  have ex: "concat (map (\<lambda>x. (\<lambda>obj p. case p of
                       Absent \<Rightarrow> []
                     | Inherited \<Rightarrow>
                         [map_sum id change_update
                            (updateTree_inherited (entry_sha obj) (entry_path obj))]
                     | Own (File file) \<Rightarrow> [Inr (existing_leaf obj (File file))]
                     | Own (Dir props) \<Rightarrow>
                         if map_of props ''file'' \<noteq> None then [Inr (existing_leaf obj (Dir props))]
                         else [map_sum id change_update
                                 (updateTree (Some (entry_sha obj)) (entry_path obj) props)]) x
          (js_get [(name, File f)] (entry_path x))) es) = [Inr (existing_leaf obj (File f))]"
    by (subst existing_single[OF d assms(3) assms(5)]) simp_all
  show ?thesis
    using assms(2,4) added_single[OF assms(3), of "File f"] name obj ex
    by (subst updateTree.simps)
       (simp add: createTree_def js_split_no_separator for_in_single existing_leaf_def
          del: map_of.simps)
qed

lemma updateTree_dir_existing:
  assumes "wf_obj (Tree es)" and "getTree sha0 = Inr es"
    and "find (\<lambda>e. entry_path e = name) es = Some obj"
    and "\<forall>x \<in> set es. entry_path x \<noteq> name \<longrightarrow> entry_path x \<notin> set Object_prototype"
    and "map_of sub ''file'' = None"
    and "updateTree (Some (entry_sha obj)) name sub =
           Inr \<lparr>ct_path = name, ct_mode = ''040000'', ct_type = ''tree'', ct_sha = newSub,
                parentSha = Some (entry_sha obj)\<rparr>"
  shows "updateTree sha0 p0 [(name, Dir sub)] =
     Inr \<lparr>ct_path = p0, ct_mode = ''040000'', ct_type = ''tree'',
          ct_sha = Tree (replace_entry (Entry name ''040000'' ''tree'' newSub) es),
          parentSha = sha0\<rparr>"
proof -
  from wf_find[OF assms(1,3)] have obj: "wf_entry obj" "entry_path obj = name" by auto
  with wf_entry_parts[of obj] have name: "name \<noteq> []" "CHR ''/'' \<notin> set name" by auto
  from assms(1) have d: "distinct (map entry_path es)" by simp
  have ex: "concat (map (\<lambda>x. (\<lambda>obj p. case p of
                       Absent \<Rightarrow> []
                     | Inherited \<Rightarrow>
                         [map_sum id change_update
                            (updateTree_inherited (entry_sha obj) (entry_path obj))]
                     | Own (File file) \<Rightarrow> [Inr (existing_leaf obj (File file))]
                     | Own (Dir props) \<Rightarrow>
                         if map_of props ''file'' \<noteq> None then [Inr (existing_leaf obj (Dir props))]
                         else [map_sum id change_update
                                 (updateTree (Some (entry_sha obj)) (entry_path obj) props)]) x
          (js_get [(name, Dir sub)] (entry_path x))) es)
       = [map_sum id change_update (updateTree (Some (entry_sha obj)) (entry_path obj) sub)]"
    using assms(5) by (subst existing_single[OF d assms(3) assms(4)]) simp_all
  show ?thesis
    using assms(2,5,6) added_single[OF assms(3), of "Dir sub"] name obj ex
    by (subst updateTree.simps)
       (simp add: createTree_def js_split_no_separator for_in_single change_update_def
          del: map_of.simps)
qed

lemma outside_singleton:
  "outside q [name] \<longleftrightarrow> (\<exists>q0 qs. q = q0 # qs \<and> q0 \<noteq> name)"
  by (cases q) (auto simp: outside_def)

lemma insert_Nil_Cons:
  "d \<notin> set Object_prototype \<Longrightarrow> composeFileTree_insert ds name f [] = Inr sub
    \<Longrightarrow> composeFileTree_insert (d # ds) name f [] = Inr [(d, Dir sub)]"
  by (simp add: js_get_def)

lemma level_free:
  assumes "\<forall>ds n. prefix ds dirs \<and> n \<in> set Object_prototype \<and> lookup_path es (ds @ [n]) \<noteq> None
             \<longrightarrow> prefix (ds @ [n]) (dirs @ [name])"
  shows "\<forall>x \<in> set es. entry_path x \<noteq> hd (dirs @ [name]) \<longrightarrow> entry_path x \<notin> set Object_prototype"
proof (intro ballI impI notI)
  fix x assume x: "x \<in> set es" "entry_path x \<noteq> hd (dirs @ [name])" "entry_path x \<in> set Object_prototype"
  from x(1) have "find (\<lambda>e. entry_path e = entry_path x) es \<noteq> None"
    by (auto simp: find_None_iff)
  then have "lookup_path es ([] @ [entry_path x]) \<noteq> None" by simp
  with assms[rule_format, of "[]" "entry_path x"] x(3)
  have "prefix ([] @ [entry_path x]) (dirs @ [name])" by simp
  then have "entry_path x = hd (dirs @ [name])" by (cases "dirs @ [name]") auto
  with x(2) show False by simp
qed

lemma updateTree_remove_path:
  assumes "wf_obj (Tree es)" and "getTree sha0 = Inr es"
    and "lookup_path es (dirs @ [name]) = Some e" and "remove f"
    and "set dirs \<inter> set Object_prototype = {}" and "name \<noteq> ''__proto__''"
    and "''file'' \<notin> set (tl (dirs @ [name]))"
    and "\<forall>ds n. prefix ds dirs \<and> n \<in> set Object_prototype \<and> lookup_path es (ds @ [n]) \<noteq> None
             \<longrightarrow> prefix (ds @ [n]) (dirs @ [name])"
  shows "\<exists>fileTree es'. composeFileTree_insert dirs name f [] = Inr fileTree
          \<and> map fst fileTree = [hd (dirs @ [name])]
          \<and> updateTree sha0 p0 fileTree =
              Inr \<lparr>ct_path = p0, ct_mode = ''040000'', ct_type = ''tree'', ct_sha = Tree es',
                   parentSha = sha0\<rparr>
          \<and> lookup_path es' (dirs @ [name]) = None
          \<and> (\<forall>q. outside q (dirs @ [name]) \<longrightarrow> lookup_path es' q = lookup_path es q)"
  using assms
proof (induction dirs arbitrary: es sha0 p0)
  case Nil
  from Nil.prems(3) have f: "find (\<lambda>e. entry_path e = name) es = Some e" by simp
  from level_free[OF Nil.prems(8)]
  have free: "\<forall>x \<in> set es. entry_path x \<noteq> name \<longrightarrow> entry_path x \<notin> set Object_prototype" by simp
  have c1: "composeFileTree_insert [] name f [] = Inr [(name, File f)]"
    using Nil.prems(6) by simp
  have c2: "map fst [(name, File f)] = [hd ([] @ [name])]" by simp
  have c3: "updateTree sha0 p0 [(name, File f)] =
     Inr \<lparr>ct_path = p0, ct_mode = ''040000'', ct_type = ''tree'',
          ct_sha = Tree (filter (\<lambda>e. entry_path e \<noteq> name) es), parentSha = sha0\<rparr>"
    using updateTree_file_remove[OF Nil.prems(1,2) f Nil.prems(4) free] by simp
  have c4: "lookup_path (filter (\<lambda>e. entry_path e \<noteq> name) es) ([] @ [name]) = None"
    by (simp add: find_None_iff)
  have c5: "\<forall>q. outside q ([] @ [name])
      \<longrightarrow> lookup_path (filter (\<lambda>e. entry_path e \<noteq> name) es) q = lookup_path es q"
    using put_entry_frame[of _ "[name]" None es] by simp
  show ?case
    apply (rule exI[of _ "[(name, File f)]"])
    apply (rule exI[of _ "filter (\<lambda>e. entry_path e \<noteq> name) es"])
    using c1 c2 c3 c4 c5 by blast
next
  case (Cons d dirs)
  have ne: "dirs @ [name] \<noteq> []" by simp
  from Cons.prems(3) obtain obj subes where
    obj: "find (\<lambda>e. entry_path e = d) es = Some obj"
    and sub: "getTree (Some (entry_sha obj)) = Inr subes"
    and look: "lookup_path subes (dirs @ [name]) = Some e"
    using lookup_path_Cons[OF ne, of es d]
    by (auto split: option.splits sum.splits)
  from wf_find[OF Cons.prems(1) obj] have wobj: "wf_entry obj" "entry_path obj = d" by auto
  with wf_entry_parts[of obj] have "wf_obj (entry_sha obj)" by simp
  from wf_getTree[OF this sub] have wsub: "wf_obj (Tree subes)" .
  have below0: "\<And>qs. qs \<noteq> [] \<Longrightarrow> lookup_path es (d # qs) = lookup_path subes qs"
    using obj sub by (simp add: lookup_path_Cons)
  from Cons.prems(5) have dfree: "d \<notin> set Object_prototype"
    and dirsfree: "set dirs \<inter> set Object_prototype = {}" by auto
  from Cons.prems(7) have nofile: "''file'' \<notin> set (dirs @ [name])" by simp
  then have nofile': "''file'' \<notin> set (tl (dirs @ [name]))"
    by (metis list.set_sel(2) ne)
  have subfree: "\<forall>ds n. prefix ds dirs \<and> n \<in> set Object_prototype \<and> lookup_path subes (ds @ [n]) \<noteq> None
             \<longrightarrow> prefix (ds @ [n]) (dirs @ [name])"
  proof (intro allI impI)
    fix ds n
    assume a: "prefix ds dirs \<and> n \<in> set Object_prototype \<and> lookup_path subes (ds @ [n]) \<noteq> None"
    then have "prefix (d # ds) (d # dirs)" by simp
    moreover from a below0[of "ds @ [n]"] have "lookup_path es ((d # ds) @ [n]) \<noteq> None" by simp
    ultimately have "prefix ((d # ds) @ [n]) ((d # dirs) @ [name])"
      using Cons.prems(8) a by blast
    then show "prefix (ds @ [n]) (dirs @ [name])" by simp
  qed
  from level_free[OF Cons.prems(8)]
  have free: "\<forall>x \<in> set es. entry_path x \<noteq> d \<longrightarrow> entry_path x \<notin> set Object_prototype" by simp
  from Cons.IH[OF wsub sub look Cons.prems(4) dirsfree Cons.prems(6) nofile' subfree, of d]
  obtain subTree subes' where ih:
    "composeFileTree_insert dirs name f [] = Inr subTree"
    "map fst subTree = [hd (dirs @ [name])]"
    "updateTree (Some (entry_sha obj)) d subTree =
            Inr \<lparr>ct_path = d, ct_mode = ''040000'', ct_type = ''tree'', ct_sha = Tree subes',
                 parentSha = Some (entry_sha obj)\<rparr>"
    "lookup_path subes' (dirs @ [name]) = None"
    "\<forall>q. outside q (dirs @ [name]) \<longrightarrow> lookup_path subes' q = lookup_path subes q"
    by auto
  from ih(2) nofile ne have "''file'' \<notin> fst ` set subTree"
    by (metis hd_in_set list.set_map list.simps(15) list.set(1) singletonD)
  then have sfile: "map_of subTree ''file'' = None" by (simp add: map_of_eq_None_iff)
  define es' where "es' = replace_entry (Entry d ''040000'' ''tree'' (Tree subes')) es"
  have comp: "composeFileTree_insert (d # dirs) name f [] = Inr [(d, Dir subTree)]"
    using insert_Nil_Cons[OF dfree ih(1)] .
  have keys: "map fst [(d, Dir subTree)] = [hd ((d # dirs) @ [name])]" by simp
  have res: "updateTree sha0 p0 [(d, Dir subTree)] =
     Inr \<lparr>ct_path = p0, ct_mode = ''040000'', ct_type = ''tree'', ct_sha = Tree es',
          parentSha = sha0\<rparr>"
    using updateTree_dir_existing[OF Cons.prems(1,2) obj free sfile ih(3)] by (simp add: es'_def)
  have find_d: "find (\<lambda>e. entry_path e = d) es' = Some (Entry d ''040000'' ''tree'' (Tree subes'))"
    by (simp add: es'_def find_replace_entry)
  have find_other: "\<And>q0. q0 \<noteq> d \<Longrightarrow> find (\<lambda>e. entry_path e = q0) es' = find (\<lambda>e. entry_path e = q0) es"
    by (simp add: es'_def find_replace_entry)
  have below: "\<And>qs. qs \<noteq> [] \<Longrightarrow> lookup_path es' (d # qs) = lookup_path subes' qs"
    using find_d by (simp add: lookup_path_Cons)
  have gone: "lookup_path es' ((d # dirs) @ [name]) = None"
    using below[OF ne] ih(4) by simp
  have frame: "\<forall>q. outside q ((d # dirs) @ [name]) \<longrightarrow> lookup_path es' q = lookup_path es q"
  proof (intro allI impI)
    fix q assume out: "outside q ((d # dirs) @ [name])"
    then obtain q0 qs where q: "q = q0 # qs" by (cases q) (auto simp: outside_def)
    show "lookup_path es' q = lookup_path es q"
    proof (cases "q0 = d")
      case False
      then show ?thesis using q find_other[OF False] by (cases qs) (simp_all)
    next
      case True
      with out q have o2: "outside qs (dirs @ [name])" by (simp add: outside_def)
      then have qs: "qs \<noteq> []" by (auto simp: outside_def)
      from ih(5) o2 have "lookup_path subes' qs = lookup_path subes qs" by blast
      then show ?thesis using q True below[OF qs] below0[OF qs] by simp
    qed
  qed
  show ?case
    apply (rule exI[of _ "[(d, Dir subTree)]"])
    apply (rule exI[of _ es'])
    using comp keys res gone frame by blast
qed

lemma composeFileTree_single:
  assumes "\<not> skip f" and "pathSegments (file_path f) \<noteq> []"
  shows "composeFileTree [f] =
     composeFileTree_insert (butlast (pathSegments (file_path f))) (last (pathSegments (file_path f))) f []"
  using assms by (simp add: composeFileTree_def js_last_def Let_def)

text \<open>
  Where the inherited names stay out of the way, \<^verbatim>\<open>updateTree\<close> removes the leaf and nothing
  else. Let the base tree be well formed and hold an entry at the path \<open>P\<close> of a file object
  with \<^verbatim>\<open>remove: true\<close>; let no directory of \<open>P\<close> be named like a member of \<^verbatim>\<open>Object.prototype\<close>,
  the file not be named \<^verbatim>\<open>__proto__\<close>, no segment after the first be named \<^verbatim>\<open>file\<close>, and let
  the directories of the base tree on the way to \<open>P\<close> list no entry under an inherited name,
  other than the next step to \<open>P\<close>. Then \<^verbatim>\<open>updateTree\<close>, applied to the file tree that
  \<^verbatim>\<open>composeFileTree\<close> builds from this one file, resolves with a tree that has no entry at \<open>P\<close>
  and, at every path outside \<open>P\<close>, the very entry of the base tree: same SHA, mode and type.
  (The directories above \<open>P\<close> are entries of the new tree as well, with the SHA of their new
  listing.)
\<close>

lemma updateTree_remove_leaf:
  assumes "wf_obj base" and "remove file" and "\<not> skip file"
    and "tree_at base (pathSegments (file_path file)) \<noteq> None"
    and "set (butlast (pathSegments (file_path file))) \<inter> set Object_prototype = {}"
    and "last (pathSegments (file_path file)) \<noteq> ''__proto__''"
    and "''file'' \<notin> set (tl (pathSegments (file_path file)))"
    and "\<forall>ds n. prefix ds (butlast (pathSegments (file_path file))) \<and> n \<in> set Object_prototype
                \<and> tree_at base (ds @ [n]) \<noteq> None
             \<longrightarrow> prefix (ds @ [n]) (pathSegments (file_path file))"
  shows "\<exists>fileTree es'. composeFileTree [file] = Inr fileTree
          \<and> updateTree (Some base) path0 fileTree =
            Inr \<lparr>ct_path = path0, ct_mode = ''040000'', ct_type = ''tree'', ct_sha = Tree es',
                 parentSha = Some base\<rparr>
          \<and> tree_at (Tree es') (pathSegments (file_path file)) = None
          \<and> (\<forall>q. outside q (pathSegments (file_path file))
                 \<longrightarrow> tree_at (Tree es') q = tree_at base q)"
proof -
  let ?P = "pathSegments (file_path file)"
  from assms(4) obtain es e where es: "getTree (Some base) = Inr es" "lookup_path es ?P = Some e"
    by (auto simp: tree_at_def split: sum.splits)
  then have ne: "?P \<noteq> []" by auto
  then have P: "butlast ?P @ [last ?P] = ?P" by simp
  from wf_getTree[OF assms(1) es(1)] have wf: "wf_obj (Tree es)" .
  from es(2) P have look: "lookup_path es (butlast ?P @ [last ?P]) = Some e" by simp
  from assms(7) P have nofile: "''file'' \<notin> set (tl (butlast ?P @ [last ?P]))" by simp
  from assms(8) es(1) P
  have free: "\<forall>ds n. prefix ds (butlast ?P) \<and> n \<in> set Object_prototype \<and> lookup_path es (ds @ [n]) \<noteq> None
             \<longrightarrow> prefix (ds @ [n]) (butlast ?P @ [last ?P])"
    by (simp add: tree_at_def)
  from updateTree_remove_path[OF wf es(1) look assms(2) assms(5) assms(6) nofile free, of path0]
  obtain fileTree es' where r0:
    "composeFileTree_insert (butlast ?P) (last ?P) file [] = Inr fileTree"
    "map fst fileTree = [hd (butlast ?P @ [last ?P])]"
    and r: "updateTree (Some base) path0 fileTree =
            Inr \<lparr>ct_path = path0, ct_mode = ''040000'', ct_type = ''tree'', ct_sha = Tree es',
                 parentSha = Some base\<rparr>"
    "lookup_path es' (butlast ?P @ [last ?P]) = None"
    "\<forall>q. outside q (butlast ?P @ [last ?P]) \<longrightarrow> lookup_path es' q = lookup_path es q"
    by auto
  from r0(1) have c1: "composeFileTree [file] = Inr fileTree"
    using composeFileTree_single[OF assms(3) ne] by simp
  from r(2) P have c2: "tree_at (Tree es') ?P = None" by (simp add: tree_at_def)
  from r(3) P es(1) have c3: "\<forall>q. outside q ?P \<longrightarrow> tree_at (Tree es') q = tree_at base q"
    by (simp add: tree_at_def)
  show ?thesis
    apply (rule exI[of _ fileTree])
    apply (rule exI[of _ es'])
    using c1 r(1) c2 c3 by blast
qed

text \<open>Removing \<^verbatim>\<open>content/a.md\<close> from a tree that holds it next to \<^verbatim>\<open>content/b.md\<close>.\<close>

lemma updateTree_remove_leaf_example:
  "\<exists>fileTree es'. composeFileTree [example_removed] = Inr fileTree
      \<and> updateTree (Some example_tree) ''/'' fileTree =
            Inr \<lparr>ct_path = ''/'', ct_mode = ''040000'', ct_type = ''tree'', ct_sha = Tree es',
                 parentSha = Some example_tree\<rparr>
      \<and> tree_at (Tree es') [''content'', ''a.md''] = None
      \<and> tree_at (Tree es') [''content'', ''b.md''] = Some (Entry ''b.md'' ''100644'' ''blob'' (Blob 3))
      \<and> tree_at (Tree es') [''README.md''] = Some (Entry ''README.md'' ''100644'' ''blob'' (Blob 1))"
proof -
  have h1: "wf_obj example_tree" by (simp add: example_tree_def)
  have h2: "remove example_removed" by (simp add: example_removed_def)
  have h3: "\<not> skip example_removed" by (simp add: example_removed_def)
  have P: "pathSegments (file_path example_removed) = [''content'', ''a.md'']"
    by (simp add: example_removed_def pathSegments_def)
  have h4: "tree_at example_tree (pathSegments (file_path example_removed)) \<noteq> None"
    by (simp add: P) (simp add: example_tree_def tree_at_def)
  have h5: "set (butlast (pathSegments (file_path example_removed))) \<inter> set Object_prototype = {}"
    by (simp add: P Object_prototype_def)
  have h6: "last (pathSegments (file_path example_removed)) \<noteq> ''__proto__''"
    by (simp add: P)
  have h7: "''file'' \<notin> set (tl (pathSegments (file_path example_removed)))"
    by (simp add: P)
  have pre: "\<And>ds. prefix ds [''content''] \<longleftrightarrow> ds = [] \<or> ds = [''content'']"
    by (auto simp: prefix_Cons)
  have h8: "\<forall>ds n. prefix ds (butlast (pathSegments (file_path example_removed)))
                \<and> n \<in> set Object_prototype \<and> tree_at example_tree (ds @ [n]) \<noteq> None
             \<longrightarrow> prefix (ds @ [n]) (pathSegments (file_path example_removed))"
    by (auto simp: P pre Object_prototype_def example_tree_def tree_at_def)
  have o1: "outside [''content'', ''b.md''] (pathSegments (file_path example_removed))"
    by (simp add: P outside_def)
  have o2: "outside [''README.md''] (pathSegments (file_path example_removed))"
    by (simp add: P outside_def)
  have b1: "tree_at example_tree [''content'', ''b.md''] = Some (Entry ''b.md'' ''100644'' ''blob'' (Blob 3))"
    by (simp add: example_tree_def tree_at_def)
  have b2: "tree_at example_tree [''README.md''] = Some (Entry ''README.md'' ''100644'' ''blob'' (Blob 1))"
    by (simp add: example_tree_def tree_at_def)
  from updateTree_remove_leaf[OF h1 h2 h3 h4 h5 h6 h7 h8, of "''/''"]
  obtain fileTree es' where r:
    "composeFileTree [example_removed] = Inr fileTree"
    "updateTree (Some example_tree) ''/'' fileTree =
            Inr \<lparr>ct_path = ''/'', ct_mode = ''040000'', ct_type = ''tree'', ct_sha = Tree es',
                 parentSha = Some example_tree\<rparr>"
    "tree_at (Tree es') (pathSegments (file_path example_removed)) = None"
    "\<forall>q. outside q (pathSegments (file_path example_removed))
        \<longrightarrow> tree_at (Tree es') q = tree_at example_tree q"
    by auto
  from r(4) o1 o2 b1 b2 have
    "tree_at (Tree es') [''content'', ''b.md''] = Some (Entry ''b.md'' ''100644'' ''blob'' (Blob 3))"
    "tree_at (Tree es') [''README.md''] = Some (Entry ''README.md'' ''100644'' ''blob'' (Blob 1))"
    by auto
  with r(1,2,3) P show ?thesis by auto
qed

text \<open>
  A directory object with a property named \<^verbatim>\<open>file\<close> passes the test \<^verbatim>\<open>fileOrDir.file\<close>: to
  remove \<^verbatim>\<open>content/file\<close>, \<^verbatim>\<open>updateTree\<close> posts the entry \<^verbatim>\<open>content\<close> itself as a leaf, without
  a SHA, which the remote refuses.
\<close>

lemma updateTree_directory_named_file:
  "wf_obj file_tree
   \<and> remove file_removed \<and> \<not> skip file_removed
   \<and> tree_at file_tree (pathSegments (file_path file_removed)) \<noteq> None
   \<and> composeFileTree [file_removed] = Inr [(''content'', Dir [(''file'', File file_removed)])]
   \<and> existing_leaf (Entry ''content'' ''040000'' ''tree'' t) (Dir [(''file'', File file_removed)])
        = NoSha ''content'' ''040000'' ''tree''
   \<and> updateTree (Some file_tree) ''/'' [(''content'', Dir [(''file'', File file_removed)])]
        = Inl (APIError 422 ''Invalid tree info'')"
proof -
  have P: "pathSegments (file_path file_removed) = [''content'', ''file'']"
    by (simp add: file_removed_def pathSegments_def)
  have a: "wf_obj file_tree \<and> remove file_removed \<and> \<not> skip file_removed
      \<and> tree_at file_tree (pathSegments (file_path file_removed)) \<noteq> None"
    by (simp add: P file_tree_def tree_at_def) (simp add: file_removed_def)
  have b: "composeFileTree [file_removed] = Inr [(''content'', Dir [(''file'', File file_removed)])]"
    using a by (simp add: composeFileTree_def P js_last_def js_get_def Object_prototype_def)
  have c: "existing_leaf (Entry ''content'' ''040000'' ''tree'' t) (Dir [(''file'', File file_removed)])
        = NoSha ''content'' ''040000'' ''tree''"
    by (simp add: existing_leaf_def)
  have d: "updateTree (Some file_tree) ''/'' [(''content'', Dir [(''file'', File file_removed)])]
        = Inl (APIError 422 ''Invalid tree info'')"
    by (subst updateTree.simps)
       (simp add: file_tree_def js_get_def Object_prototype_def existing_leaf_def for_in_def
          array_index_def createTree_def)
  from a b c d show ?thesis by blast
qed

text \<open>
  Claim C6 is what \<^verbatim>\<open>updateTree\<close> is meant to do, and the code fails it. The tree
  \<open>constructor_tree\<close> lists \<^verbatim>\<open>README.md\<close> next to a file named \<^verbatim>\<open>constructor\<close>. To remove
  \<^verbatim>\<open>README.md\<close>, \<^verbatim>\<open>composeFileTree\<close> builds the object with the one property \<^verbatim>\<open>README.md\<close>;
  \<^verbatim>\<open>updateTree\<close> then looks every entry of the tree up in that plain object, finds under
  \<^verbatim>\<open>constructor\<close> the function every object inherits, takes it for a directory and asks the
  remote for the tree of the entry, which is a blob: the call is rejected with 404, and no
  tree without \<^verbatim>\<open>README.md\<close> is created.
\<close>

theorem updateTree_inherited_name_rejects:
  "wf_obj constructor_tree
   \<and> remove readme_removed \<and> \<not> skip readme_removed
   \<and> tree_at constructor_tree (pathSegments (file_path readme_removed))
       = Some (Entry ''README.md'' ''100644'' ''blob'' (Blob 1))
   \<and> composeFileTree [readme_removed] = Inr [(''README.md'', File readme_removed)]
   \<and> js_get [(''README.md'', File readme_removed)] ''constructor'' = Inherited
   \<and> updateTree (Some constructor_tree) ''/'' [(''README.md'', File readme_removed)]
       = Inl (APIError 404 ''Not Found'')"
proof -
  have P: "pathSegments (file_path readme_removed) = [''README.md'']"
    by (simp add: readme_removed_def pathSegments_def)
  have a: "wf_obj constructor_tree \<and> remove readme_removed \<and> \<not> skip readme_removed
      \<and> tree_at constructor_tree (pathSegments (file_path readme_removed))
       = Some (Entry ''README.md'' ''100644'' ''blob'' (Blob 1))"
    by (simp add: P constructor_tree_def tree_at_def) (simp add: readme_removed_def)
  have b: "composeFileTree [readme_removed] = Inr [(''README.md'', File readme_removed)]"
    using a by (simp add: composeFileTree_def P js_last_def js_get_def Object_prototype_def)
  have c: "js_get [(''README.md'', File readme_removed)] ''constructor'' = Inherited"
    by (simp add: js_get_def Object_prototype_def)
  have d: "updateTree (Some constructor_tree) ''/'' [(''README.md'', File readme_removed)]
       = Inl (APIError 404 ''Not Found'')"
    by (subst updateTree.simps)
       (simp add: constructor_tree_def js_get_def Object_prototype_def updateTree_inherited_def
          existing_leaf_def readme_removed_def)
  from a b c d show ?thesis by blast
qed


section \<open>Promises and requests\<close>



section \<open>Merging a pull request\<close>
















section \<open>The metadata store and its semaphore\<close>

text \<open>
  A call that finds the slot taken is queued and its promise is not settled. A call that
  takes the slot and fails leaves the slot taken; one that succeeds gives it back.
\<close>

lemma storeMetadata_when_taken:
  "0 < sem_current w \<Longrightarrow>
   storeMetadata key md w = (Pending, w\<lparr>sem_queue := sem_queue w @ [(key, md)]\<rparr>)"
  by (simp add: storeMetadata_def)

lemma storeMetadata_rejected_keeps_slot:
  assumes "sem_current w = 0" and "storeMetadata key md w = (Rejected e, w')"
  shows "sem_current w' = 1 \<and> sem_queue w' = sem_queue w"
proof -
  let ?w0 = "w\<lparr>sem_current := sem_current w + 1\<rparr>"
  obtain r w1 where wr: "storeMetadata_writes key md ?w0 = (r, w1)"
    by (cases "storeMetadata_writes key md ?w0")
  from storeMetadata_writes_semaphore[OF wr]
  have s: "sem_queue w1 = sem_queue w" "sem_current w1 = 1" using assms(1) by simp_all
  from assms wr have "r = Rejected e \<and> w' = w1"
    by (cases r) (auto simp: storeMetadata_def storeMetadata_task.simps)
  with s show ?thesis by simp
qed

lemma storeMetadata_resolved_releases:
  assumes "sem_current w = 0" and "sem_queue w = []" and "storeMetadata key md w = (Resolved u, w')"
  shows "sem_current w' = 0 \<and> sem_queue w' = []"
proof -
  let ?w0 = "w\<lparr>sem_current := sem_current w + 1\<rparr>"
  obtain r w1 where wr: "storeMetadata_writes key md ?w0 = (r, w1)"
    by (cases "storeMetadata_writes key md ?w0")
  from storeMetadata_writes_semaphore[OF wr]
  have s: "sem_queue w1 = []" "sem_current w1 = 1" using assms(1,2) by simp_all
  from assms wr have "w' = semaphore_leave w1"
    by (cases r) (auto simp: storeMetadata_def storeMetadata_task.simps)
  with s show ?thesis by (simp add: semaphore_leave.simps)
qed

lemma storeMetadata_meta_world:
  "storeMetadata key md meta_world
     = (Rejected (APIError 502 ''Bad Gateway''), meta_world\<lparr>faults := [], sem_current := 1\<rparr>)"
  by (simp add: storeMetadata_def storeMetadata_task.simps storeMetadata_writes_def andThen_def
      checkMetadataRef_def catch_def request_def settle_def uploadBlob_def meta_world_def
      example_world_def refKey_def META_REF_def)

text \<open>
  Claim C2 does not hold of the code. The first call takes the slot, its second request
  is rejected, and the \<^verbatim>\<open>catch\<close> block rejects the promise without calling \<^verbatim>\<open>leave()\<close>: the
  semaphore still counts one slot taken. The next call on the same client, made when every
  request would be answered, finds the slot taken, is queued and never settles; nothing is
  left to call \<^verbatim>\<open>leave()\<close>.
\<close>

theorem storeMetadata_failure_blocks_next:
  "storeMetadata ''hello'' hello_metadata meta_world
     = (Rejected (APIError 502 ''Bad Gateway''), meta_world\<lparr>faults := [], sem_current := 1\<rparr>)
   \<and> storeMetadata ''hello'' (hello_metadata\<lparr>status := ''pending_review''\<rparr>)
         (meta_world\<lparr>faults := [], sem_current := 1\<rparr>)
     = (Pending,
        meta_world\<lparr>faults := [], sem_current := 1,
                    sem_queue := [(''hello'', hello_metadata\<lparr>status := ''pending_review''\<rparr>)]\<rparr>)"
proof -
  have "sem_queue (meta_world\<lparr>faults := [], sem_current := 1\<rparr>) = []"
    by (simp add: meta_world_def example_world_def)
  then show ?thesis
    using storeMetadata_meta_world[of "''hello''" hello_metadata]
      storeMetadata_when_taken[of "meta_world\<lparr>faults := [], sem_current := 1\<rparr>" "''hello''"
        "hello_metadata\<lparr>status := ''pending_review''\<rparr>"]
    by simp
qed


section \<open>Calls of \<^verbatim>\<open>storeMetadata\<close> in flight\<close>

text \<open>
  Run in one piece from its first stage, the task of the loop is \<open>storeMetadata_writes\<close>.
\<close>

lemma resume_step:
  assumes "storeMetadata_await key md st = andThen p (\<lambda>x. resolve (Some (g x)))"
  shows "storeMetadata_resume key md st = andThen p (\<lambda>x. storeMetadata_resume key md (g x))"
proof
  fix w
  show "storeMetadata_resume key md st w = andThen p (\<lambda>x. storeMetadata_resume key md (g x)) w"
    by (subst storeMetadata_resume.simps)
       (auto simp: assms andThen_def resolve_def split: prod.splits outcome.splits)
qed

lemma resume_last:
  "storeMetadata_resume key md (AwaitPatchRef newSha) =
     andThen (patchRef ''meta'' META_REF newSha False) (\<lambda>patched w.
       (Resolved (),
        w\<lparr>cache := (cache w)(key \<mapsto> \<lparr>expires = now w + 300000, data = md\<rparr>)\<rparr>))"
proof
  fix w
  show "storeMetadata_resume key md (AwaitPatchRef newSha) w =
     andThen (patchRef ''meta'' META_REF newSha False) (\<lambda>patched w.
       (Resolved (),
        w\<lparr>cache := (cache w)(key \<mapsto> \<lparr>expires = now w + 300000, data = md\<rparr>)\<rparr>)) w"
    by (subst storeMetadata_resume.simps)
       (auto simp: andThen_def split: prod.splits outcome.splits)
qed

lemma storeMetadata_resume_writes:
  "storeMetadata_resume key md AwaitCheckMetadataRef = storeMetadata_writes key md"
  unfolding storeMetadata_writes_def
  by (simp add: resume_step[OF storeMetadata_await.simps(1)]
      resume_step[OF storeMetadata_await.simps(2)]
      resume_step[OF storeMetadata_await.simps(3)]
      resume_step[where g="\<lambda>response. AwaitPatchRef (sha response)", OF storeMetadata_await.simps(4)]
      resume_last)

text \<open>The writes of a task neither read nor change the queue of the semaphore.\<close>

lemma ignores_queue_andThen:
  assumes "ignores_queue p" and "\<And>x. ignores_queue (f x)"
  shows "ignores_queue (andThen p f)"
  unfolding ignores_queue_def
proof (intro allI)
  fix w q
  obtain r w' where p: "p w = (r, w')" by (cases "p w")
  with assms(1) have pq: "p (w\<lparr>sem_queue := q\<rparr>) = (r, w'\<lparr>sem_queue := q\<rparr>)"
    by (simp add: ignores_queue_def)
  show "andThen p f (w\<lparr>sem_queue := q\<rparr>)
      = (fst (andThen p f w), (snd (andThen p f w))\<lparr>sem_queue := q\<rparr>)"
  proof (cases r)
    case (Resolved x)
    from assms(2)[of x] have "f x (w'\<lparr>sem_queue := q\<rparr>) = (fst (f x w'), (snd (f x w'))\<lparr>sem_queue := q\<rparr>)"
      by (simp add: ignores_queue_def)
    with p pq Resolved show ?thesis by (simp add: andThen_def)
  next
    case (Rejected e)
    with p pq show ?thesis by (simp add: andThen_def)
  next
    case Pending
    with p pq show ?thesis by (simp add: andThen_def)
  qed
qed

lemma ignores_queue_catch:
  assumes "ignores_queue p" and "\<And>e. ignores_queue (h e)"
  shows "ignores_queue (catch p h)"
  unfolding ignores_queue_def
proof (intro allI)
  fix w q
  obtain r w' where p: "p w = (r, w')" by (cases "p w")
  with assms(1) have pq: "p (w\<lparr>sem_queue := q\<rparr>) = (r, w'\<lparr>sem_queue := q\<rparr>)"
    by (simp add: ignores_queue_def)
  show "catch p h (w\<lparr>sem_queue := q\<rparr>)
      = (fst (catch p h w), (snd (catch p h w))\<lparr>sem_queue := q\<rparr>)"
  proof (cases r)
    case (Resolved x)
    with p pq show ?thesis by (simp add: catch_def)
  next
    case (Rejected e)
    from assms(2)[of e] have "h e (w'\<lparr>sem_queue := q\<rparr>) = (fst (h e w'), (snd (h e w'))\<lparr>sem_queue := q\<rparr>)"
      by (simp add: ignores_queue_def)
    with p pq Rejected show ?thesis by (simp add: catch_def)
  next
    case Pending
    with p pq show ?thesis by (simp add: catch_def)
  qed
qed

lemma ignores_queue_request:
  assumes "\<And>w q. respond (w\<lparr>sem_queue := q\<rparr>) = (fst (respond w), (snd (respond w))\<lparr>sem_queue := q\<rparr>)"
  shows "ignores_queue (request respond)"
  unfolding ignores_queue_def
proof (intro allI)
  fix w q
  have s: "settle (r, u\<lparr>sem_queue := q\<rparr>) = (fst (settle (r, u)), (snd (settle (r, u)))\<lparr>sem_queue := q\<rparr>)"
    for r :: "error + 'a" and u
    by (cases r) (auto simp: settle_def)
  have t: "settle (respond (u\<lparr>sem_queue := q\<rparr>)) = (fst (settle (respond u)), (snd (settle (respond u)))\<lparr>sem_queue := q\<rparr>)"
    for u
    using assms[where w=u and q=q] s[where r="fst (respond u)" and u="snd (respond u)"] by simp
  show "request respond (w\<lparr>sem_queue := q\<rparr>)
      = (fst (request respond w), (snd (request respond w))\<lparr>sem_queue := q\<rparr>)"
  proof (cases "faults w")
    case Nil
    then show ?thesis using t[of w] by (simp add: request_def)
  next
    case (Cons a rest)
    have eq: "(w\<lparr>sem_queue := q\<rparr>)\<lparr>faults := rest\<rparr> = (w\<lparr>faults := rest\<rparr>)\<lparr>sem_queue := q\<rparr>" by simp
    show ?thesis
    proof (cases a)
      case None
      with Cons have "request respond (w\<lparr>sem_queue := q\<rparr>)
          = settle (respond ((w\<lparr>faults := rest\<rparr>)\<lparr>sem_queue := q\<rparr>))"
        by (simp add: request_def del: world.update_convs) (simp only: eq)
      moreover from Cons None have "request respond w = settle (respond (w\<lparr>faults := rest\<rparr>))"
        by (simp add: request_def)
      ultimately show ?thesis using t[of "w\<lparr>faults := rest\<rparr>"] by simp
    next
      case (Some c)
      with Cons eq show ?thesis by (cases c) (simp add: request_def)
    qed
  qed
qed

lemma ignores_queue_resolve: "ignores_queue (resolve x)"
  by (simp add: ignores_queue_def resolve_def)

lemma ignores_queue_createCommit: "ignores_queue (createCommit m t ps a c)"
  unfolding createCommit_def
  by (rule ignores_queue_request) (simp add: Let_def split: option.splits)

lemma ignores_queue_commit: "ignores_queue (commit m ct)"
  unfolding commit_def by (rule ignores_queue_createCommit)

lemma ignores_queue_uploadBlob: "ignores_queue (uploadBlob c)"
  unfolding uploadBlob_def by (rule ignores_queue_request) simp

lemma ignores_queue_createRef: "ignores_queue (createRef t n s)"
  unfolding createRef_def by (rule ignores_queue_request) simp

lemma ignores_queue_patchRef: "ignores_queue (patchRef t n s f)"
  unfolding patchRef_def
  by (rule ignores_queue_request) (simp add: find_commit_def split: option.splits)

lemma ignores_queue_checkMetadataRef: "ignores_queue checkMetadataRef"
  unfolding checkMetadataRef_def
  by (intro ignores_queue_catch ignores_queue_andThen ignores_queue_request
      ignores_queue_uploadBlob ignores_queue_commit ignores_queue_createRef)
     (simp_all split: option.splits)

lemma ignores_queue_cache:
  "ignores_queue (\<lambda>w. (Resolved x,
      w\<lparr>cache := (cache w)(key \<mapsto> \<lparr>expires = now w + 300000, data = md\<rparr>)\<rparr>))"
  by (simp add: ignores_queue_def)

lemma ignores_queue_await: "ignores_queue (storeMetadata_await key md st)"
proof (cases st)
  case AwaitCheckMetadataRef
  then show ?thesis
    by (simp only: storeMetadata_await.simps)
       (intro ignores_queue_andThen ignores_queue_checkMetadataRef ignores_queue_resolve)
next
  case (AwaitUploadBlob branchData)
  then show ?thesis
    by (simp only: storeMetadata_await.simps)
       (intro ignores_queue_andThen ignores_queue_uploadBlob ignores_queue_resolve)
next
  case (AwaitUpdateTree branchData b)
  then show ?thesis
    by (simp only: storeMetadata_await.simps)
       (intro ignores_queue_andThen ignores_queue_request ignores_queue_resolve, simp)
next
  case (AwaitCommit changeTree)
  then show ?thesis
    by (simp only: storeMetadata_await.simps)
       (intro ignores_queue_andThen ignores_queue_commit ignores_queue_resolve)
next
  case (AwaitPatchRef newSha)
  then show ?thesis
    by (simp only: storeMetadata_await.simps)
       (intro ignores_queue_andThen ignores_queue_patchRef ignores_queue_cache)
qed

lemma keeps_semaphore_resolve: "keeps_semaphore (resolve x)"
  by (simp add: keeps_semaphore_def resolve_def)

lemma keeps_semaphore_cache:
  "keeps_semaphore (\<lambda>w. (Resolved x,
      w\<lparr>cache := (cache w)(key \<mapsto> \<lparr>expires = now w + 300000, data = md\<rparr>)\<rparr>))"
  by (simp add: keeps_semaphore_def)

lemma keeps_semaphore_await: "keeps_semaphore (storeMetadata_await key md st)"
proof (cases st)
  case AwaitCheckMetadataRef
  then show ?thesis
    by (simp only: storeMetadata_await.simps)
       (intro keeps_semaphore_andThen keeps_semaphore_checkMetadataRef keeps_semaphore_resolve)
next
  case (AwaitUploadBlob branchData)
  then show ?thesis
    by (simp only: storeMetadata_await.simps)
       (intro keeps_semaphore_andThen keeps_semaphore_uploadBlob keeps_semaphore_resolve)
next
  case (AwaitUpdateTree branchData b)
  then show ?thesis
    by (simp only: storeMetadata_await.simps)
       (intro keeps_semaphore_andThen keeps_semaphore_request keeps_semaphore_resolve, simp)
next
  case (AwaitCommit changeTree)
  then show ?thesis
    by (simp only: storeMetadata_await.simps)
       (intro keeps_semaphore_andThen keeps_semaphore_commit keeps_semaphore_resolve)
next
  case (AwaitPatchRef newSha)
  then show ?thesis
    by (simp only: storeMetadata_await.simps)
       (intro keeps_semaphore_andThen keeps_semaphore_patchRef keeps_semaphore_cache)
qed

lemma await_semaphore:
  assumes "storeMetadata_await key md st w = (r, w')"
  shows "sem_queue w' = sem_queue w \<and> sem_current w' = sem_current w"
  using keeps_semaphore_await[of key md st] assms
  by (auto simp: keeps_semaphore_def dest: spec[of _ w])

lemma await_queue:
  assumes "storeMetadata_await key md st w = (r, w')"
  shows "storeMetadata_await key md st (w\<lparr>sem_queue := q\<rparr>) = (r, w'\<lparr>sem_queue := q\<rparr>)"
  using ignores_queue_await[of key md st] assms by (simp add: ignores_queue_def)

lemma resume_semaphore:
  "storeMetadata_resume key md st w = (r, w')
     \<Longrightarrow> sem_queue w' = sem_queue w \<and> sem_current w' = sem_current w"
proof (induction key md st w arbitrary: r w' rule: storeMetadata_resume.induct)
  case (1 key md st w)
  obtain x u where a: "storeMetadata_await key md st w = (x, u)"
    by (cases "storeMetadata_await key md st w")
  from await_semaphore[OF a] have u: "sem_queue u = sem_queue w" "sem_current u = sem_current w" by auto
  show ?case
  proof (cases x)
    case (Resolved y)
    show ?thesis
    proof (cases y)
      case None
      with a Resolved "1.prems" u show ?thesis
        by (subst (asm) storeMetadata_resume.simps) simp
    next
      case (Some n)
      with a Resolved "1.prems" have "storeMetadata_resume key md n u = (r, w')"
        by (subst (asm) storeMetadata_resume.simps) simp
      from "1.IH"[OF a[symmetric] Resolved Some this] u show ?thesis by simp
    qed
  next
    case (Rejected e)
    with a "1.prems" u show ?thesis by (subst (asm) storeMetadata_resume.simps) simp
  next
    case Pending
    with a "1.prems" u show ?thesis by (subst (asm) storeMetadata_resume.simps) simp
  qed
qed

lemma resume_queue:
  "storeMetadata_resume key md st w = (r, w')
     \<Longrightarrow> storeMetadata_resume key md st (w\<lparr>sem_queue := q\<rparr>) = (r, w'\<lparr>sem_queue := q\<rparr>)"
proof (induction key md st w arbitrary: r w' rule: storeMetadata_resume.induct)
  case (1 key md st w)
  obtain x u where a: "storeMetadata_await key md st w = (x, u)"
    by (cases "storeMetadata_await key md st w")
  note aq = await_queue[OF a, of q]
  show ?case
  proof (cases x)
    case (Resolved y)
    show ?thesis
    proof (cases y)
      case None
      with a Resolved "1.prems" have "r = Resolved ()" "w' = u"
        by (subst (asm) storeMetadata_resume.simps, simp)+
      with aq Resolved None show ?thesis
        by (subst storeMetadata_resume.simps) simp
    next
      case (Some n)
      with a Resolved "1.prems" have "storeMetadata_resume key md n u = (r, w')"
        by (subst (asm) storeMetadata_resume.simps) simp
      from "1.IH"[OF a[symmetric] Resolved Some this]
      have "storeMetadata_resume key md n (u\<lparr>sem_queue := q\<rparr>) = (r, w'\<lparr>sem_queue := q\<rparr>)" .
      with aq Resolved Some show ?thesis
        by (subst storeMetadata_resume.simps) simp
    qed
  next
    case (Rejected e)
    with a "1.prems" have "r = Rejected e" "w' = u"
      by (subst (asm) storeMetadata_resume.simps, simp)+
    with aq Rejected show ?thesis by (subst storeMetadata_resume.simps) simp
  next
    case Pending
    with a "1.prems" have "r = Pending" "w' = u"
      by (subst (asm) storeMetadata_resume.simps, simp)+
    with aq Pending show ?thesis by (subst storeMetadata_resume.simps) simp
  qed
qed

lemma task_finish_start:
  "task_finish \<lparr>task_key = key, task_data = md, task_at = AwaitCheckMetadataRef\<rparr> w
     = snd (storeMetadata_task key md w)"
  by (subst storeMetadata_task.simps)
     (simp add: task_finish_def storeMetadata_resume_writes split: prod.splits outcome.splits)

text \<open>
  A call that arrives while the slot is taken is queued. Once the holder of the slot and
  the tasks queued before have run, it is served as if it had been made then.
\<close>

lemma finish_append_aux:
  assumes cur: "sem_current w = 1"
    and leave: "\<And>u. sem_current u = 1 \<Longrightarrow> sem_queue u = sem_queue w
           \<Longrightarrow> semaphore_leave (u\<lparr>sem_queue := sem_queue u @ [(k, md)]\<rparr>)
               = snd (storeMetadata k md (semaphore_leave u))"
  shows "task_finish t (w\<lparr>sem_queue := sem_queue w @ [(k, md)]\<rparr>)
           = snd (storeMetadata k md (task_finish t w))"
proof -
  obtain r u where res: "storeMetadata_resume (task_key t) (task_data t) (task_at t) w = (r, u)"
    by (cases "storeMetadata_resume (task_key t) (task_data t) (task_at t) w")
  from resume_semaphore[OF res] cur have u: "sem_queue u = sem_queue w" "sem_current u = 1" by auto
  from resume_queue[OF res, of "sem_queue w @ [(k, md)]"] u
  have resq: "storeMetadata_resume (task_key t) (task_data t) (task_at t)
        (w\<lparr>sem_queue := sem_queue w @ [(k, md)]\<rparr>) = (r, u\<lparr>sem_queue := sem_queue u @ [(k, md)]\<rparr>)"
    by simp
  show ?thesis
  proof (cases r)
    case (Resolved x)
    with res resq leave[OF u(2) u(1)] show ?thesis by (simp add: task_finish_def)
  next
    case (Rejected e)
    with res resq u show ?thesis by (simp add: task_finish_def storeMetadata_def)
  next
    case Pending
    with res resq u show ?thesis by (simp add: task_finish_def storeMetadata_def)
  qed
qed

lemma leave_append:
  "sem_current w = 1 \<Longrightarrow>
   semaphore_leave (w\<lparr>sem_queue := sem_queue w @ [(k, md)]\<rparr>)
     = snd (storeMetadata k md (semaphore_leave w))"
proof (induction "length (sem_queue w)" arbitrary: w rule: less_induct)
  case less
  show ?case
  proof (cases "sem_queue w")
    case Nil
    have l: "semaphore_leave w = w\<lparr>sem_current := 0\<rparr>"
      using Nil less.prems by (subst semaphore_leave.simps) (simp add: Let_def)
    have eq: "w\<lparr>sem_queue := [], sem_current := Suc 0\<rparr> = w\<lparr>sem_current := Suc 0\<rparr>"
      using Nil by (cases w) simp
    have "semaphore_leave (w\<lparr>sem_queue := sem_queue w @ [(k, md)]\<rparr>)
        = snd (storeMetadata_task k md (w\<lparr>sem_current := Suc 0\<rparr>))"
      using Nil less.prems by (subst semaphore_leave.simps) (simp add: Let_def eq)
    moreover have "snd (storeMetadata k md (w\<lparr>sem_current := 0\<rparr>))
        = snd (storeMetadata_task k md (w\<lparr>sem_current := Suc 0\<rparr>))"
      by (simp add: storeMetadata_def)
    ultimately show ?thesis using l by simp
  next
    case (Cons y ys)
    obtain k2 md2 where y: "y = (k2, md2)" by (cases y)
    define t where "t = \<lparr>task_key = k2, task_data = md2, task_at = AwaitCheckMetadataRef\<rparr>"
    define wA where "wA = w\<lparr>sem_queue := ys, sem_current := Suc 0\<rparr>"
    have wA: "sem_current wA = 1" "sem_queue wA = ys" by (simp_all add: wA_def)
    have l: "semaphore_leave w = task_finish t wA"
      using Cons y less.prems
      by (subst semaphore_leave.simps) (simp add: Let_def task_finish_start t_def wA_def)
    have eq: "w\<lparr>sem_queue := ys @ [(k, md)], sem_current := Suc 0\<rparr>
                 = wA\<lparr>sem_queue := sem_queue wA @ [(k, md)]\<rparr>"
      by (cases w) (simp add: wA_def)
    have lq: "semaphore_leave (w\<lparr>sem_queue := sem_queue w @ [(k, md)]\<rparr>)
        = task_finish t (wA\<lparr>sem_queue := sem_queue wA @ [(k, md)]\<rparr>)"
      using Cons y less.prems
      by (subst semaphore_leave.simps)
         (simp add: Let_def task_finish_start t_def eq[unfolded wA(2)] wA(2))
    have "task_finish t (wA\<lparr>sem_queue := sem_queue wA @ [(k, md)]\<rparr>)
        = snd (storeMetadata k md (task_finish t wA))"
    proof (rule finish_append_aux[OF wA(1)])
      fix u :: world assume u: "sem_current u = 1" "sem_queue u = sem_queue wA"
      with wA Cons have "length (sem_queue u) < length (sem_queue w)" by simp
      from less.hyps[OF this u(1)]
      show "semaphore_leave (u\<lparr>sem_queue := sem_queue u @ [(k, md)]\<rparr>)
               = snd (storeMetadata k md (semaphore_leave u))" .
    qed
    with l lq show ?thesis by simp
  qed
qed

lemma finish_append:
  "sem_current w = 1 \<Longrightarrow>
   task_finish t (w\<lparr>sem_queue := sem_queue w @ [(k, md)]\<rparr>)
     = snd (storeMetadata k md (task_finish t w))"
proof (rule finish_append_aux)
  fix u :: world assume "sem_current u = 1"
  from leave_append[OF this]
  show "semaphore_leave (u\<lparr>sem_queue := sem_queue u @ [(k, md)]\<rparr>)
          = snd (storeMetadata k md (semaphore_leave u))" .
qed

text \<open>
  One event, seen from the state the loop drains to: a call is a call of \<open>storeMetadata\<close>
  on that state, and a step of the task in flight changes nothing.
\<close>

lemma step_Call:
  assumes "length (in_flight L) \<le> 1"
    and "in_flight L \<noteq> [] \<longrightarrow> sem_current (loop_world L) = 1"
  shows "loop_drain (loop_step (Call k md) L) = snd (storeMetadata k md (loop_drain L))
       \<and> length (in_flight (loop_step (Call k md) L)) \<le> 1
       \<and> (in_flight (loop_step (Call k md) L) \<noteq> []
            \<longrightarrow> sem_current (loop_world (loop_step (Call k md) L)) = 1)"
proof (cases "in_flight L")
  case Nil
  show ?thesis
  proof (cases "sem_current (loop_world L) + 1 > 1")
    case True
    with Nil show ?thesis
      by (simp add: loop_take_def loop_drain_def storeMetadata_def Let_def)
  next
    case False
    then have cur: "sem_current (loop_world L) = 0" by simp
    with Nil show ?thesis
      by (simp add: loop_take_def loop_start_def loop_drain_def storeMetadata_def Let_def
          task_finish_start)
  qed
next
  case (Cons t others)
  with assms have o: "others = []" and cur: "sem_current (loop_world L) = 1" by auto
  from finish_append[OF cur, of t k md] Cons o cur show ?thesis
    by (simp add: loop_take_def loop_drain_def Let_def)
qed

lemma leave_drain:
  assumes "in_flight L = []" and "sem_current (loop_world L) = 1"
  shows "loop_drain (loop_leave L) = semaphore_leave (loop_world L)
       \<and> length (in_flight (loop_leave L)) \<le> 1
       \<and> (in_flight (loop_leave L) \<noteq> [] \<longrightarrow> sem_current (loop_world (loop_leave L)) = 1)"
proof (cases "sem_queue (loop_world L)")
  case Nil
  with assms show ?thesis
    by (subst semaphore_leave.simps) (simp add: loop_leave_def loop_drain_def Let_def)
next
  case (Cons y ys)
  obtain k2 md2 where y: "y = (k2, md2)" by (cases y)
  with Cons assms show ?thesis
    by (subst semaphore_leave.simps)
       (simp add: loop_leave_def loop_start_def loop_drain_def Let_def task_finish_start)
qed

lemma step_Settle:
  assumes "length (in_flight L) \<le> 1"
    and "in_flight L \<noteq> [] \<longrightarrow> sem_current (loop_world L) = 1"
  shows "loop_drain (loop_step (Settle i) L) = loop_drain L
       \<and> length (in_flight (loop_step (Settle i) L)) \<le> 1
       \<and> (in_flight (loop_step (Settle i) L) \<noteq> []
            \<longrightarrow> sem_current (loop_world (loop_step (Settle i) L)) = 1)"
proof (cases "i < length (in_flight L)")
  case False
  with assms show ?thesis by simp
next
  case True
  with assms(1) obtain t where fl: "in_flight L = [t]" and i: "i = 0"
    by (cases "in_flight L") auto
  with assms(2) have cur: "sem_current (loop_world L) = 1" by simp
  obtain x u where a: "storeMetadata_await (task_key t) (task_data t) (task_at t) (loop_world L) = (x, u)"
    by (cases "storeMetadata_await (task_key t) (task_data t) (task_at t) (loop_world L)")
  from await_semaphore[OF a] cur have u: "sem_current u = 1" by simp
  show ?thesis
  proof (cases x)
    case (Resolved y)
    show ?thesis
    proof (cases y)
      case None
      have r: "storeMetadata_resume (task_key t) (task_data t) (task_at t) (loop_world L)
                 = (Resolved (), u)"
        using a Resolved None by (subst storeMetadata_resume.simps) simp
      define L1 where "L1 = L\<lparr>loop_world := u, in_flight := [],
          settled := settled L @ [(task_key t, task_data t, Resolved ())]\<rparr>"
      have L1: "in_flight L1 = []" "sem_current (loop_world L1) = 1" "loop_world L1 = u"
        using u by (simp_all add: L1_def)
      have step: "loop_step (Settle i) L = loop_leave L1"
        using fl i a Resolved None by (simp add: L1_def)
      from leave_drain[OF L1(1,2)] L1(3) r fl show ?thesis
        unfolding step by (simp add: loop_drain_def task_finish_def)
    next
      case (Some n)
      have r: "storeMetadata_resume (task_key t) (task_data t) (task_at t) (loop_world L)
                 = storeMetadata_resume (task_key t) (task_data t) n u"
        using a Resolved Some by (subst storeMetadata_resume.simps) simp
      with fl i a Resolved Some u show ?thesis
        by (simp add: loop_drain_def task_finish_def)
    qed
  next
    case (Rejected e)
    have r: "storeMetadata_resume (task_key t) (task_data t) (task_at t) (loop_world L)
                 = (Rejected e, u)"
      using a Rejected by (subst storeMetadata_resume.simps) simp
    with fl i a Rejected show ?thesis
      by (simp add: loop_drain_def task_finish_def)
  next
    case Pending
    with fl i a assms show ?thesis by simp
  qed
qed

lemma run_drain:
  assumes "length (in_flight L) \<le> 1"
    and "in_flight L \<noteq> [] \<longrightarrow> sem_current (loop_world L) = 1"
  shows "loop_drain (loop_run evs L)
           = fold (\<lambda>(key, md) w. snd (storeMetadata key md w)) (calls evs) (loop_drain L)
       \<and> length (in_flight (loop_run evs L)) \<le> 1
       \<and> (in_flight (loop_run evs L) \<noteq> [] \<longrightarrow> sem_current (loop_world (loop_run evs L)) = 1)"
  using assms
proof (induction evs arbitrary: L)
  case Nil
  then show ?case by (simp add: loop_run_def)
next
  case (Cons ev evs)
  show ?case
  proof (cases ev)
    case (Call k md)
    from step_Call[OF Cons.prems, of k md] Cons.IH[of "loop_step (Call k md) L"] Call
    show ?thesis by (simp add: loop_run_def)
  next
    case (Settle i)
    from step_Settle[OF Cons.prems, of i] Cons.IH[of "loop_step (Settle i) L"] Settle
    show ?thesis by (simp add: loop_run_def)
  qed
qed

lemma step_order:
  assumes "length (in_flight L) \<le> 1"
    and "in_flight L \<noteq> [] \<longrightarrow> sem_current (loop_world L) = 1"
    and "sem_current (loop_world L) = 0 \<longrightarrow> sem_queue (loop_world L) = []"
  shows "map (\<lambda>(key, md, r). (key, md)) (settled (loop_step ev L))
           @ map (\<lambda>t. (task_key t, task_data t)) (in_flight (loop_step ev L))
           @ sem_queue (loop_world (loop_step ev L))
         = map (\<lambda>(key, md, r). (key, md)) (settled L)
           @ map (\<lambda>t. (task_key t, task_data t)) (in_flight L)
           @ sem_queue (loop_world L) @ calls [ev]
       \<and> (sem_current (loop_world (loop_step ev L)) = 0
            \<longrightarrow> sem_queue (loop_world (loop_step ev L)) = [])"
proof (cases ev)
  case (Call k md)
  show ?thesis
  proof (cases "sem_current (loop_world L) + 1 > 1")
    case True
    with Call show ?thesis by (simp add: loop_take_def Let_def)
  next
    case False
    then have cur: "sem_current (loop_world L) = 0" by simp
    with assms have "sem_queue (loop_world L) = []" "in_flight L = []" by auto
    with Call cur show ?thesis by (simp add: loop_take_def loop_start_def Let_def)
  qed
next
  case (Settle i)
  show ?thesis
  proof (cases "i < length (in_flight L)")
    case False
    with Settle assms(3) show ?thesis by simp
  next
    case True
    with assms(1) obtain t where fl: "in_flight L = [t]" and i: "i = 0"
      by (cases "in_flight L") auto
    with assms(2) have cur: "sem_current (loop_world L) = 1" by simp
    obtain x u where a: "storeMetadata_await (task_key t) (task_data t) (task_at t) (loop_world L) = (x, u)"
      by (cases "storeMetadata_await (task_key t) (task_data t) (task_at t) (loop_world L)")
    from await_semaphore[OF a] cur
    have u: "sem_current u = 1" "sem_queue u = sem_queue (loop_world L)" by simp_all
    show ?thesis
    proof (cases x)
      case (Resolved y)
      show ?thesis
      proof (cases y)
        case None
        show ?thesis
        proof (cases "sem_queue u")
          case Nil
          with Settle fl i a Resolved None u show ?thesis
            by (simp add: loop_leave_def Let_def)
        next
          case (Cons z zs)
          obtain k2 md2 where z: "z = (k2, md2)" by (cases z)
          with Cons Settle fl i a Resolved None u show ?thesis
            by (simp add: loop_leave_def loop_start_def Let_def)
        qed
      next
        case (Some n)
        with Settle fl i a Resolved u show ?thesis by simp
      qed
    next
      case (Rejected e)
      with Settle fl i a u show ?thesis by simp
    next
      case Pending
      with Settle fl i a assms(3) show ?thesis by simp
    qed
  qed
qed

lemma calls_append: "calls (evs @ evs') = calls evs @ calls evs'"
  by (induction evs rule: calls.induct) simp_all

lemma run_order:
  assumes "length (in_flight L) \<le> 1"
    and "in_flight L \<noteq> [] \<longrightarrow> sem_current (loop_world L) = 1"
    and "sem_current (loop_world L) = 0 \<longrightarrow> sem_queue (loop_world L) = []"
  shows "map (\<lambda>(key, md, r). (key, md)) (settled (loop_run evs L))
           @ map (\<lambda>t. (task_key t, task_data t)) (in_flight (loop_run evs L))
           @ sem_queue (loop_world (loop_run evs L))
         = map (\<lambda>(key, md, r). (key, md)) (settled L)
           @ map (\<lambda>t. (task_key t, task_data t)) (in_flight L)
           @ sem_queue (loop_world L) @ calls evs"
  using assms
proof (induction evs arbitrary: L)
  case Nil
  then show ?case by (simp add: loop_run_def)
next
  case (Cons ev evs)
  have inv: "length (in_flight (loop_step ev L)) \<le> 1
       \<and> (in_flight (loop_step ev L) \<noteq> [] \<longrightarrow> sem_current (loop_world (loop_step ev L)) = 1)"
    using step_Call[OF Cons.prems(1,2)] step_Settle[OF Cons.prems(1,2)] by (cases ev) simp_all
  from step_order[OF Cons.prems, of ev]
  have o: "map (\<lambda>(key, md, r). (key, md)) (settled (loop_step ev L))
           @ map (\<lambda>t. (task_key t, task_data t)) (in_flight (loop_step ev L))
           @ sem_queue (loop_world (loop_step ev L))
         = map (\<lambda>(key, md, r). (key, md)) (settled L)
           @ map (\<lambda>t. (task_key t, task_data t)) (in_flight L)
           @ sem_queue (loop_world L) @ calls [ev]"
    and q: "sem_current (loop_world (loop_step ev L)) = 0
            \<longrightarrow> sem_queue (loop_world (loop_step ev L)) = []"
    by simp_all
  from inv have i1: "length (in_flight (loop_step ev L)) \<le> 1"
    and i2: "in_flight (loop_step ev L) \<noteq> [] \<longrightarrow> sem_current (loop_world (loop_step ev L)) = 1"
    by simp_all
  have c: "calls (ev # evs) = calls [ev] @ calls evs"
    using calls_append[of "[ev]" evs] by simp
  from Cons.IH[OF i1 i2 q] o show ?case
    by (simp add: loop_run_def c del: calls.simps)
qed

text \<open>
  Claim C9. Let calls of \<^verbatim>\<open>storeMetadata\<close> arrive on a client whose semaphore has no task
  waiting, at any moments: before, between and after the steps of the tasks in flight.
  Then at every moment at most one task is in flight, so that the steps of two tasks never
  interleave. The calls are served in the order of their arrival: those whose promise has
  settled came first, in that order, then the one in flight, then those that wait in the
  queue. And whenever no task is in flight, the state of client and remote is the state
  reached when each call is made after the one before it has run to its end, in the
  order of arrival: for two calls, the first in full and then the second in full.
\<close>

theorem storeMetadata_calls_in_order:
  assumes "sem_queue w = []"
  shows "length (in_flight (loop_run evs (loop_idle w))) \<le> 1
       \<and> calls evs = map (\<lambda>(key, md, r). (key, md)) (settled (loop_run evs (loop_idle w)))
                      @ map (\<lambda>t. (task_key t, task_data t)) (in_flight (loop_run evs (loop_idle w)))
                      @ sem_queue (loop_world (loop_run evs (loop_idle w)))
       \<and> (in_flight (loop_run evs (loop_idle w)) = []
            \<longrightarrow> loop_world (loop_run evs (loop_idle w))
                  = fold (\<lambda>(key, md) w. snd (storeMetadata key md w)) (calls evs) w)"
proof -
  have i1: "length (in_flight (loop_idle w)) \<le> 1" by (simp add: loop_idle_def)
  have i2: "in_flight (loop_idle w) \<noteq> [] \<longrightarrow> sem_current (loop_world (loop_idle w)) = 1"
    by (simp add: loop_idle_def)
  have i3: "sem_current (loop_world (loop_idle w)) = 0 \<longrightarrow> sem_queue (loop_world (loop_idle w)) = []"
    using assms by (simp add: loop_idle_def)
  from run_drain[OF i1 i2, of evs]
  have d: "loop_drain (loop_run evs (loop_idle w))
           = fold (\<lambda>(key, md) w. snd (storeMetadata key md w)) (calls evs) w"
    and l: "length (in_flight (loop_run evs (loop_idle w))) \<le> 1"
    by (simp_all add: loop_drain_def loop_idle_def)
  from run_order[OF i1 i2 i3, of evs] assms
  have o: "calls evs = map (\<lambda>(key, md, r). (key, md)) (settled (loop_run evs (loop_idle w)))
                      @ map (\<lambda>t. (task_key t, task_data t)) (in_flight (loop_run evs (loop_idle w)))
                      @ sem_queue (loop_world (loop_run evs (loop_idle w)))"
    by (simp add: loop_idle_def)
  from d have "in_flight (loop_run evs (loop_idle w)) = []
            \<longrightarrow> loop_world (loop_run evs (loop_idle w))
                  = fold (\<lambda>(key, md) w. snd (storeMetadata key md w)) (calls evs) w"
    by (auto simp: loop_drain_def)
  with l o show ?thesis by blast
qed

text \<open>
  Two calls for the same key, the second made while the task of the first is in flight:
  both promises are resolved, the commit of the second call is made on top of the commit
  of the first, and the metadata ref points at it.
\<close>

lemma updateTree_first_metadata:
  "updateTree (Some (Commit 50 (Tree [Entry ''README.md'' ''100644'' ''blob'' (Blob 49)]))) ''/''
     [(''hello.json'', File \<lparr>file_path = ''hello.json'', file_sha = b, remove = False, skip = False\<rparr>)]
   = Inr \<lparr>ct_path = ''/'', ct_mode = ''040000'', ct_type = ''tree'',
          ct_sha = Tree [Entry ''README.md'' ''100644'' ''blob'' (Blob 49),
                         Entry ''hello.json'' ''100644'' ''blob'' (Blob b)],
          parentSha = Some (Commit 50 (Tree [Entry ''README.md'' ''100644'' ''blob'' (Blob 49)]))\<rparr>"
  by (subst updateTree.simps)
     (simp add: js_get_def Object_prototype_def for_in_def array_index_def added_leaf_def
        createTree_def replace_entry_def)

lemma updateTree_next_metadata:
  "updateTree (Some (Commit n (Tree [Entry ''README.md'' ''100644'' ''blob'' (Blob 49),
                         Entry ''hello.json'' ''100644'' ''blob'' (Blob a)]))) ''/''
     [(''hello.json'', File \<lparr>file_path = ''hello.json'', file_sha = b, remove = False, skip = False\<rparr>)]
   = Inr \<lparr>ct_path = ''/'', ct_mode = ''040000'', ct_type = ''tree'',
          ct_sha = Tree [Entry ''README.md'' ''100644'' ''blob'' (Blob 49),
                         Entry ''hello.json'' ''100644'' ''blob'' (Blob b)],
          parentSha = Some (Commit n (Tree [Entry ''README.md'' ''100644'' ''blob'' (Blob 49),
                         Entry ''hello.json'' ''100644'' ''blob'' (Blob a)]))\<rparr>"
  by (subst updateTree.simps)
     (simp add: js_get_def Object_prototype_def for_in_def array_index_def existing_leaf_def
        createTree_def replace_entry_def)

lemmas two_calls_defs = loop_run_def two_calls_def loop_idle_def loop_take_def loop_start_def
  loop_leave_def Let_def andThen_def catch_def resolve_def request_def settle_def
  checkMetadataRef_def uploadBlob_def commit_def createCommit_def patchRef_def find_commit_def
  refKey_def META_REF_def quiet_meta_world_def example_world_def meta_root_def
  updateTree_first_metadata updateTree_next_metadata

theorem storeMetadata_calls_in_order_witness:
  "sem_queue quiet_meta_world = []
   \<and> calls two_calls = [(''hello'', hello_metadata),
                        (''hello'', hello_metadata\<lparr>status := ''pending_review''\<rparr>)]
   \<and> in_flight (loop_run two_calls (loop_idle quiet_meta_world)) = []
   \<and> settled (loop_run two_calls (loop_idle quiet_meta_world))
        = [(''hello'', hello_metadata, Resolved ()),
           (''hello'', hello_metadata\<lparr>status := ''pending_review''\<rparr>, Resolved ())]
   \<and> loop_world (loop_run two_calls (loop_idle quiet_meta_world))
        = snd (storeMetadata ''hello'' (hello_metadata\<lparr>status := ''pending_review''\<rparr>)
                (snd (storeMetadata ''hello'' hello_metadata quiet_meta_world)))
   \<and> map (\<lambda>c. (sha c, parents c))
          (remote_commits (loop_world (loop_run two_calls (loop_idle quiet_meta_world))))
        = [(Commit 50 (Tree [Entry ''README.md'' ''100644'' ''blob'' (Blob 49)]), []),
           (Commit 101 (Tree [Entry ''README.md'' ''100644'' ''blob'' (Blob 49),
                              Entry ''hello.json'' ''100644'' ''blob'' (Blob 100)]),
            [Commit 50 (Tree [Entry ''README.md'' ''100644'' ''blob'' (Blob 49)])]),
           (Commit 103 (Tree [Entry ''README.md'' ''100644'' ''blob'' (Blob 49),
                              Entry ''hello.json'' ''100644'' ''blob'' (Blob 102)]),
            [Commit 101 (Tree [Entry ''README.md'' ''100644'' ''blob'' (Blob 49),
                               Entry ''hello.json'' ''100644'' ''blob'' (Blob 100)])])]
   \<and> refs (loop_world (loop_run two_calls (loop_idle quiet_meta_world))) ''meta/_netlify_cms''
        = Some (Commit 103 (Tree [Entry ''README.md'' ''100644'' ''blob'' (Blob 49),
                                  Entry ''hello.json'' ''100644'' ''blob'' (Blob 102)]))
   \<and> blobs (loop_world (loop_run two_calls (loop_idle quiet_meta_world))) 102
        = Some (Json (hello_metadata\<lparr>status := ''pending_review''\<rparr>))"
proof -
  have q: "sem_queue quiet_meta_world = []"
    by (simp add: quiet_meta_world_def example_world_def)
  have c: "calls two_calls = [(''hello'', hello_metadata),
                        (''hello'', hello_metadata\<lparr>status := ''pending_review''\<rparr>)]"
    by (simp add: two_calls_def)
  have f: "in_flight (loop_run two_calls (loop_idle quiet_meta_world)) = []"
    by (simp add: two_calls_defs)
  have s: "settled (loop_run two_calls (loop_idle quiet_meta_world))
        = [(''hello'', hello_metadata, Resolved ()),
           (''hello'', hello_metadata\<lparr>status := ''pending_review''\<rparr>, Resolved ())]"
    by (simp add: two_calls_defs)
  have m: "map (\<lambda>c. (sha c, parents c))
          (remote_commits (loop_world (loop_run two_calls (loop_idle quiet_meta_world))))
        = [(Commit 50 (Tree [Entry ''README.md'' ''100644'' ''blob'' (Blob 49)]), []),
           (Commit 101 (Tree [Entry ''README.md'' ''100644'' ''blob'' (Blob 49),
                              Entry ''hello.json'' ''100644'' ''blob'' (Blob 100)]),
            [Commit 50 (Tree [Entry ''README.md'' ''100644'' ''blob'' (Blob 49)])]),
           (Commit 103 (Tree [Entry ''README.md'' ''100644'' ''blob'' (Blob 49),
                              Entry ''hello.json'' ''100644'' ''blob'' (Blob 102)]),
            [Commit 101 (Tree [Entry ''README.md'' ''100644'' ''blob'' (Blob 49),
                               Entry ''hello.json'' ''100644'' ''blob'' (Blob 100)])])]"
    by (simp add: two_calls_defs)
  have r: "refs (loop_world (loop_run two_calls (loop_idle quiet_meta_world))) ''meta/_netlify_cms''
        = Some (Commit 103 (Tree [Entry ''README.md'' ''100644'' ''blob'' (Blob 49),
                                  Entry ''hello.json'' ''100644'' ''blob'' (Blob 102)]))"
    by (simp add: two_calls_defs)
  have b: "blobs (loop_world (loop_run two_calls (loop_idle quiet_meta_world))) 102
        = Some (Json (hello_metadata\<lparr>status := ''pending_review''\<rparr>))"
    by (simp add: two_calls_defs)
  from storeMetadata_calls_in_order[OF q, of two_calls] f c
  have w: "loop_world (loop_run two_calls (loop_idle quiet_meta_world))
        = snd (storeMetadata ''hello'' (hello_metadata\<lparr>status := ''pending_review''\<rparr>)
                (snd (storeMetadata ''hello'' hello_metadata quiet_meta_world)))"
    by simp
  from q c f s w m r b show ?thesis by blast
qed

section \<open>Deleting an unpublished entry\<close>

lemma retrieveMetadata_frame:
  assumes "faults w = []" and "retrieveMetadata this key w = (Resolved md, w)"
  shows "retrieveMetadata this key (w\<lparr>pulls := ps, refs := (refs w)(refKey ''heads'' b := None)\<rparr>)
           = (Resolved md, w\<lparr>pulls := ps, refs := (refs w)(refKey ''heads'' b := None)\<rparr>)"
  using assms
  unfolding retrieveMetadata_def contents_request_def parse_metadata_def andThen_def
  by (auto simp: request_def settle_def resolve_def reject_def refKey_def META_REF_def
      split: option.splits if_splits prod.splits outcome.splits gitobj.splits blob_content.splits)


lemma closePR_no_faults:
  assumes "faults w = []" and "pulls w (pr_number p) = Some q"
  shows "closePR p w = (Resolved (q\<lparr>state := ''closed''\<rparr>),
                        w\<lparr>pulls := (pulls w)(pr_number p \<mapsto> q\<lparr>state := ''closed''\<rparr>)\<rparr>)"
  using assms by (simp add: closePR_def patchPR_def request_def settle_def)

lemma deleteBranch_no_faults:
  assumes "faults w = []"
  shows "catch (deleteBranch b) (\<lambda>err.
              if error_message err = Some ''Reference does not exist'' then resolve ()
              else reject err) w
         = (Resolved (), w\<lparr>refs := (refs w)(refKey ''heads'' b := None)\<rparr>)"
proof (cases "refs w (refKey ''heads'' b)")
  case None
  then have "(refs w)(refKey ''heads'' b := None) = refs w" by (simp add: fun_upd_idem_iff)
  then have "w\<lparr>refs := (refs w)(refKey ''heads'' b := None)\<rparr> = w" by simp
  moreover have "catch (deleteBranch b) (\<lambda>err.
              if error_message err = Some ''Reference does not exist'' then resolve ()
              else reject err) w = (Resolved (), w)"
    using assms None
    by (simp add: catch_def deleteBranch_def deleteRef_def request_def settle_def resolve_def)
  ultimately show ?thesis by simp
next
  case (Some a)
  with assms show ?thesis
    by (simp add: catch_def deleteBranch_def deleteRef_def request_def settle_def)
qed

lemma catch_andThen_Resolved:
  assumes "p w = (Resolved x, w')"
  shows "catch (andThen p f) h w = catch (f x) h w'"
  using assms by (simp add: catch_def andThen_def)

lemma deleteUnpublishedEntry_result:
  assumes "faults w = []"
    and "retrieveMetadata this (generateContentKey this collectionName slug) w = (Resolved md, w)"
    and "case pr md of None \<Rightarrow> True | Some p \<Rightarrow> pulls w (pr_number p) \<noteq> None"
  shows "deleteUnpublishedEntry this collectionName slug w =
     (Resolved (),
      w\<lparr>pulls := (case pr md of
                     None \<Rightarrow> pulls w
                   | Some p \<Rightarrow> (pulls w)(pr_number p \<mapsto> (the (pulls w (pr_number p)))\<lparr>state := ''closed''\<rparr>)),
        refs := (refs w)(refKey ''heads''
                   (generateBranchName (generateContentKey this collectionName slug)) := None)\<rparr>)"
proof (cases "pr md")
  case None
  have "deleteUnpublishedEntry this collectionName slug w =
     catch (deleteBranch (generateBranchName (generateContentKey this collectionName slug)))
       (\<lambda>err. if error_message err = Some ''Reference does not exist'' then resolve ()
              else reject err) w"
    using assms(2) None
    by (simp add: deleteUnpublishedEntry_def Let_def catch_andThen_Resolved)
       (simp add: catch_def andThen_def resolve_def)
  with None deleteBranch_no_faults[OF assms(1)] show ?thesis by simp
next
  case (Some p)
  with assms(3) obtain q where q: "pulls w (pr_number p) = Some q" by auto
  let ?w' = "w\<lparr>pulls := (pulls w)(pr_number p \<mapsto> q\<lparr>state := ''closed''\<rparr>)\<rparr>"
  have f: "faults ?w' = []" using assms(1) by simp
  have "deleteUnpublishedEntry this collectionName slug w =
     catch (deleteBranch (generateBranchName (generateContentKey this collectionName slug)))
       (\<lambda>err. if error_message err = Some ''Reference does not exist'' then resolve ()
              else reject err) ?w'"
    using assms(2) Some closePR_no_faults[OF assms(1) q]
    by (simp add: deleteUnpublishedEntry_def Let_def catch_andThen_Resolved)
       (simp add: catch_def andThen_def resolve_def)
  with Some q deleteBranch_no_faults[OF f] show ?thesis by simp
qed

text \<open>
  Claim C8. Let every request be answered, and let the entry exist for the client: its
  metadata can be retrieved, and the pull request the metadata records, if any, is known
  to the platform. Then \<^verbatim>\<open>deleteUnpublishedEntry\<close> resolves, the branch of the entry is gone,
  and a second call in the state the first has left resolves as well and changes nothing.
  In the second call the deletion of the branch fails with the message
  \<^verbatim>\<open>Reference does not exist\<close>, which the handler turns into success.
\<close>

theorem deleteUnpublishedEntry_idempotent:
  assumes "faults w = []"
    and "retrieveMetadata this (generateContentKey this collectionName slug) w = (Resolved md, w)"
    and "case pr md of None \<Rightarrow> True | Some p \<Rightarrow> pulls w (pr_number p) \<noteq> None"
  shows "\<exists>w1. deleteUnpublishedEntry this collectionName slug w = (Resolved (), w1)
            \<and> refs w1 (refKey ''heads''
                 (generateBranchName (generateContentKey this collectionName slug))) = None
            \<and> deleteUnpublishedEntry this collectionName slug w1 = (Resolved (), w1)"
proof -
  let ?key = "generateContentKey this collectionName slug"
  let ?b = "generateBranchName ?key"
  let ?ps = "case pr md of
               None \<Rightarrow> pulls w
             | Some p \<Rightarrow> (pulls w)(pr_number p \<mapsto> (the (pulls w (pr_number p)))\<lparr>state := ''closed''\<rparr>)"
  let ?w1 = "w\<lparr>pulls := ?ps, refs := (refs w)(refKey ''heads'' ?b := None)\<rparr>"
  have first: "deleteUnpublishedEntry this collectionName slug w = (Resolved (), ?w1)"
    by (rule deleteUnpublishedEntry_result[OF assms])
  have f1: "faults ?w1 = []" using assms(1) by simp
  have r1: "retrieveMetadata this ?key ?w1 = (Resolved md, ?w1)"
    by (rule retrieveMetadata_frame[OF assms(1,2)])
  have p1: "case pr md of None \<Rightarrow> True | Some p \<Rightarrow> pulls ?w1 (pr_number p) \<noteq> None"
    by (simp split: option.splits)
  have ps: "(case pr md of
               None \<Rightarrow> pulls ?w1
             | Some p \<Rightarrow> (pulls ?w1)(pr_number p \<mapsto> (the (pulls ?w1 (pr_number p)))\<lparr>state := ''closed''\<rparr>))
           = ?ps"
    by (simp split: option.splits)
  have "deleteUnpublishedEntry this collectionName slug ?w1 =
      (Resolved (), ?w1\<lparr>pulls := ?ps, refs := (refs ?w1)(refKey ''heads'' ?b := None)\<rparr>)"
    using deleteUnpublishedEntry_result[OF f1 r1 p1] unfolding ps .
  then have second: "deleteUnpublishedEntry this collectionName slug ?w1 = (Resolved (), ?w1)"
    by simp
  have "refs ?w1 (refKey ''heads'' ?b) = None" by simp
  with first second show ?thesis by blast
qed


text \<open>The entry \<^verbatim>\<open>hello\<close> with its branch \<^verbatim>\<open>cms/hello\<close> and its pull request.\<close>

theorem deleteUnpublishedEntry_idempotent_witness:
  "faults workflow_world = []
   \<and> retrieveMetadata plain_api (generateContentKey plain_api ''posts'' ''hello'') workflow_world
       = (Resolved hello_metadata, workflow_world)
   \<and> pulls workflow_world (pr_number hello_pr) = Some hello_pull
   \<and> refs workflow_world ''heads/cms/hello'' = Some (sha hello_tip)
   \<and> (\<exists>w1. deleteUnpublishedEntry plain_api ''posts'' ''hello'' workflow_world = (Resolved (), w1)
          \<and> refs w1 ''heads/cms/hello'' = None
          \<and> deleteUnpublishedEntry plain_api ''posts'' ''hello'' w1 = (Resolved (), w1))"
proof -
  have h1: "faults workflow_world = []"
    by (simp add: workflow_world_def merge_world_def example_world_def)
  have h2: "retrieveMetadata plain_api (generateContentKey plain_api ''posts'' ''hello'') workflow_world
       = (Resolved hello_metadata, workflow_world)"
    by (simp add: retrieveMetadata_def generateContentKey_def plain_api_def workflow_world_def
        merge_world_def example_world_def)
  have p: "pulls workflow_world (pr_number hello_pr) = Some hello_pull"
    by (simp add: workflow_world_def merge_world_def hello_pr_def)
  have h3: "case pr hello_metadata of None \<Rightarrow> True
            | Some p \<Rightarrow> pulls workflow_world (pr_number p) \<noteq> None"
    using p by (simp add: hello_metadata_def)
  have r: "refs workflow_world ''heads/cms/hello'' = Some (sha hello_tip)"
    by (simp add: workflow_world_def merge_world_def)
  have b: "refKey ''heads'' (generateBranchName (generateContentKey plain_api ''posts'' ''hello''))
            = ''heads/cms/hello''"
    by (simp add: refKey_def generateBranchName_def generateContentKey_def plain_api_def
        CMS_BRANCH_PREFIX_def)
  from deleteUnpublishedEntry_idempotent[OF h1 h2 h3] b
  have "\<exists>w1. deleteUnpublishedEntry plain_api ''posts'' ''hello'' workflow_world = (Resolved (), w1)
          \<and> refs w1 ''heads/cms/hello'' = None
          \<and> deleteUnpublishedEntry plain_api ''posts'' ''hello'' w1 = (Resolved (), w1)"
    by simp
  with h1 h2 p r show ?thesis by blast
qed


section \<open>Changing the status of an unpublished entry\<close>

lemma request_reads:
  assumes "\<And>w. snd (respond w) = w" and "request respond w = (r, w')"
  shows "w' = w\<lparr>faults := faults w'\<rparr>"
proof (cases "faults w")
  case Nil
  with assms(2) have "settle (respond w) = (r, w')" by (simp add: request_def)
  then have "snd (respond w) = w'" by (auto simp: settle_def split: prod.splits sum.splits)
  with assms(1) show ?thesis by simp
next
  case (Cons a fs)
  show ?thesis
  proof (cases a)
    case None
    with Cons assms(2) have "settle (respond (w\<lparr>faults := fs\<rparr>)) = (r, w')" by (simp add: request_def)
    then have "snd (respond (w\<lparr>faults := fs\<rparr>)) = w'" by (auto simp: settle_def split: prod.splits sum.splits)
    with assms(1)[of "w\<lparr>faults := fs\<rparr>"] have "w' = w\<lparr>faults := fs\<rparr>" by simp
    then show ?thesis by simp
  next
    case (Some f)
    with Cons assms(2) have "w' = w\<lparr>faults := fs\<rparr>" by (auto simp: request_def split: prod.splits)
    then show ?thesis by simp
  qed
qed

lemma getPullRequest_reads:
  "getPullRequest n w = (r, w') \<Longrightarrow> w' = w\<lparr>faults := faults w'\<rparr>"
  unfolding getPullRequest_def by (erule request_reads[rotated]) (simp split: option.splits)

lemma contents_request_reads:
  "contents_request this url key w = (r, w') \<Longrightarrow> w' = w\<lparr>faults := faults w'\<rparr>"
  unfolding contents_request_def
  by (erule request_reads[rotated]) (simp split: option.splits gitobj.splits)

lemma parse_metadata_reads: "parse_metadata c w = (r, w') \<Longrightarrow> w' = w"
  by (auto simp: parse_metadata_def resolve_def reject_def split: blob_content.splits)

lemma fetch_reads:
  assumes "andThen (contents_request this url key) parse_metadata w = (r, w')"
  shows "w' = w\<lparr>faults := faults w'\<rparr>"
proof (cases "contents_request this url key w")
  case (Pair a wa)
  from contents_request_reads[OF Pair] have wa: "wa = w\<lparr>faults := faults wa\<rparr>" .
  show ?thesis
  proof (cases a)
    case (Resolved c)
    with Pair assms have "parse_metadata c wa = (r, w')" by (simp add: andThen_def)
    from parse_metadata_reads[OF this] wa show ?thesis by simp
  next
    case (Rejected e)
    with Pair assms wa show ?thesis by (simp add: andThen_def)
  next
    case Pending
    with Pair assms wa show ?thesis by (simp add: andThen_def)
  qed
qed

lemma retrieveMetadata_reads:
  assumes "retrieveMetadata this key w = (r, w')"
  shows "w' = w\<lparr>faults := faults w'\<rparr>"
  using assms unfolding retrieveMetadata_def
  by (auto split: option.splits if_splits prod.splits dest: fetch_reads)

text \<open>
  Claim C10, as stated, fails for the status \<^verbatim>\<open>pending_publish\<close>: with a pull request that is
  open, state and status match neither \<^verbatim>\<open>(open, draft)\<close> nor \<^verbatim>\<open>(closed, pending_review)\<close>, but
  the call does not resolve. It is rejected by the guard that forbids this status in
  open-authoring mode (and stores nothing).
\<close>

theorem updateUnpublishedEntryStatus_pending_publish_counterexample:
  "useOpenAuthoring example_api
   \<and> fst (retrieveMetadata example_api (generateContentKey example_api ''posts'' ''hello'')
            open_authoring_world) = Resolved hello_metadata
   \<and> pr hello_metadata = Some hello_pr
   \<and> pulls open_authoring_world (pr_number hello_pr) = Some hello_pull
   \<and> state hello_pull = ''open''
   \<and> ''pending_publish'' \<noteq> ''draft''
   \<and> updateUnpublishedEntryStatus example_api ''posts'' ''hello'' ''pending_publish''
        open_authoring_world
       = (Rejected (Error (''Open Authoring entries may not be set to the status '' @
                     [CHR 0x22] @ ''pending_publish'' @ [CHR 0x22] @ ''.'')),
          open_authoring_world)"
  by (simp add: updateUnpublishedEntryStatus_def retrieveMetadata_def generateContentKey_def
      example_api_def open_authoring_world_def merge_world_def example_world_def andThen_def
      reject_def hello_metadata_def hello_pr_def hello_pull_def)


text \<open>
  Claim C10, amended. In open-authoring mode, for a requested status other than
  \<^verbatim>\<open>pending_publish\<close> and metadata that records a pull request, if the state of the pull
  request and the status match neither \<^verbatim>\<open>(open, draft)\<close> nor \<^verbatim>\<open>(closed, pending_review)\<close>, then
  \<^verbatim>\<open>updateUnpublishedEntryStatus\<close> resolves after its two reads. The state is the one it
  started in, but for the requests consumed: no metadata is stored and no pull request is
  changed.
\<close>

theorem updateUnpublishedEntryStatus_unhandled:
  assumes "useOpenAuthoring this" and "newStatus \<noteq> ''pending_publish''"
    and "retrieveMetadata this (generateContentKey this collectionName slug) w = (Resolved md, w1)"
    and "pr md = Some prMetadata"
    and "getPullRequest (pr_number prMetadata) w1 = (Resolved originPRInfo, w2)"
    and "\<not> (state originPRInfo = ''open'' \<and> newStatus = ''draft'')"
    and "\<not> (state originPRInfo = ''closed'' \<and> newStatus = ''pending_review'')"
  shows "updateUnpublishedEntryStatus this collectionName slug newStatus w = (Resolved (), w2)
       \<and> w2 = w\<lparr>faults := faults w2\<rparr>"
proof -
  have "updateUnpublishedEntryStatus this collectionName slug newStatus w = (Resolved (), w2)"
    using assms
    by (auto simp: updateUnpublishedEntryStatus_def Let_def andThen_def resolve_def)
  moreover from retrieveMetadata_reads[OF assms(3)] getPullRequest_reads[OF assms(5)]
  have "w2 = w\<lparr>faults := faults w2\<rparr>"
    by (metis world.update_convs(1) world.surjective)
  ultimately show ?thesis by blast
qed


text \<open>The pull request of \<^verbatim>\<open>hello\<close> is open and the status asked for is \<^verbatim>\<open>pending_review\<close>.\<close>

theorem updateUnpublishedEntryStatus_unhandled_witness:
  "useOpenAuthoring example_api
   \<and> retrieveMetadata example_api (generateContentKey example_api ''posts'' ''hello'')
        open_authoring_world = (Resolved hello_metadata, open_authoring_world)
   \<and> pr hello_metadata = Some hello_pr
   \<and> getPullRequest (pr_number hello_pr) open_authoring_world
        = (Resolved hello_pull, open_authoring_world)
   \<and> state hello_pull = ''open''
   \<and> updateUnpublishedEntryStatus example_api ''posts'' ''hello'' ''pending_review''
        open_authoring_world
       = (Resolved (), open_authoring_world)"
proof -
  have h1: "useOpenAuthoring example_api" by (simp add: example_api_def)
  have h2: "''pending_review'' \<noteq> ''pending_publish''" by simp
  have h3: "retrieveMetadata example_api (generateContentKey example_api ''posts'' ''hello'')
        open_authoring_world = (Resolved hello_metadata, open_authoring_world)"
    by (simp add: retrieveMetadata_def generateContentKey_def example_api_def
        open_authoring_world_def merge_world_def example_world_def)
  have h4: "pr hello_metadata = Some hello_pr" by (simp add: hello_metadata_def)
  have h5: "getPullRequest (pr_number hello_pr) open_authoring_world
        = (Resolved hello_pull, open_authoring_world)"
    by (simp add: getPullRequest_def request_def settle_def open_authoring_world_def
        merge_world_def example_world_def hello_pr_def)
  have s: "state hello_pull = ''open''" by (simp add: hello_pull_def)
  have h6: "\<not> (state hello_pull = ''open'' \<and> ''pending_review'' = ''draft'')" by simp
  have h7: "\<not> (state hello_pull = ''closed'' \<and> ''pending_review'' = ''pending_review'')"
    using s by simp
  from updateUnpublishedEntryStatus_unhandled[OF h1 h2 h3 h4 h5 h6 h7]
  have "updateUnpublishedEntryStatus example_api ''posts'' ''hello'' ''pending_review''
        open_authoring_world = (Resolved (), open_authoring_world)"
    by simp
  with h1 h3 h4 h5 s show ?thesis by blast
qed


end
